theory Spec2Isabelle
  imports Complex_Main "HOL-Library.Multiset"
begin

section \<open>JavaScript numbers\<close>

text \<open>
  A TypeScript \<^verbatim>\<open>number\<close> is an IEEE-754 binary64 value. A finite one is modelled by the
  rational it denotes; the two infinities and NaN are values of their own. The two
  zeros are identified, as the comparisons of the language do: the code modelled here
  never divides by zero, the only operation whose numeric result tells them apart.
\<close>

datatype jsnum = Fin rat | PInf | NInf | NaN

text \<open>The number of binary digits of a natural number.\<close>

fun bitlen :: "nat \<Rightarrow> nat" where
  "bitlen n = (if n = 0 then 0 else Suc (bitlen (n div 2)))"

declare bitlen.simps [simp del]

text \<open>For \<open>0 < x\<close>, \<open>ilog2 x\<close> is the exponent \<open>e\<close> with \<open>2^e \<le> x < 2^(e+1)\<close>.\<close>

definition ilog2 :: "rat \<Rightarrow> int" where
  "ilog2 x = (if 1 \<le> x then int (bitlen (nat \<lfloor>x\<rfloor>)) - 1
              else - int (bitlen (nat (\<lceil>1 / x\<rceil> - 1))))"

text \<open>Rounding to the nearest integer, a tie going to the even neighbour.\<close>

definition rhe :: "rat \<Rightarrow> int" where
  "rhe z = (let f = \<lfloor>z\<rfloor>; r = z - of_int f in
            if r < 1 / 2 then f else if 1 / 2 < r then f + 1
            else if even f then f else f + 1)"

text \<open>
  The exponent of the unit in the last place of the binary64 numbers around \<open>x\<close>:
  53 significant bits, and no exponent below that of the subnormal numbers.
\<close>

definition quantum_exp :: "rat \<Rightarrow> int" where
  "quantum_exp x = max (ilog2 \<bar>x\<bar> - 52) (- 1074)"

text \<open>
  \<open>rnd\<close> is the rounding every arithmetic operation ends with (round to nearest, ties
  to even): the exact result is rounded to a multiple of its quantum, and a rounded
  magnitude of \<open>2^1024\<close> or more overflows to an infinity.
\<close>

definition rnd :: "rat \<Rightarrow> jsnum" where
  "rnd x = (if x = 0 then Fin 0 else
     let p = quantum_exp x; y = of_int (rhe (x / 2 powi p)) * 2 powi p in
     if 2 ^ 1024 \<le> \<bar>y\<bar> then (if 0 < x then PInf else NInf) else Fin y)"

text \<open>A rational is a binary64 value when rounding leaves it as it is; a \<open>jsnum\<close> is
  well formed when its finite value is one.\<close>

definition is_double :: "rat \<Rightarrow> bool" where
  "is_double q = (rnd q = Fin q)"

fun wf_num :: "jsnum \<Rightarrow> bool" where
  "wf_num (Fin q) = is_double q"
| "wf_num PInf = True"
| "wf_num NInf = True"
| "wf_num NaN = True"

text \<open>\<^verbatim>\<open>a + b\<close>, \<^verbatim>\<open>-a\<close>, \<^verbatim>\<open>a - b\<close>, \<^verbatim>\<open>a * b\<close>, \<^verbatim>\<open>a / b\<close> and \<^verbatim>\<open>a > b\<close> on numbers.\<close>

fun fadd :: "jsnum \<Rightarrow> jsnum \<Rightarrow> jsnum" where
  "fadd NaN b = NaN"
| "fadd a NaN = NaN"
| "fadd PInf NInf = NaN"
| "fadd NInf PInf = NaN"
| "fadd PInf b = PInf"
| "fadd a PInf = PInf"
| "fadd NInf b = NInf"
| "fadd a NInf = NInf"
| "fadd (Fin a) (Fin b) = rnd (a + b)"

fun fneg :: "jsnum \<Rightarrow> jsnum" where
  "fneg (Fin a) = Fin (- a)"
| "fneg PInf = NInf"
| "fneg NInf = PInf"
| "fneg NaN = NaN"

definition fsub :: "jsnum \<Rightarrow> jsnum \<Rightarrow> jsnum" where
  "fsub a b = fadd a (fneg b)"

text \<open>The sign of a non-zero finite number times an infinity.\<close>

definition signed_inf :: "rat \<Rightarrow> jsnum \<Rightarrow> jsnum" where
  "signed_inf a i = (if a = 0 then NaN else if 0 < a then i else fneg i)"

fun fmul :: "jsnum \<Rightarrow> jsnum \<Rightarrow> jsnum" where
  "fmul NaN b = NaN"
| "fmul a NaN = NaN"
| "fmul (Fin a) (Fin b) = rnd (a * b)"
| "fmul (Fin a) PInf = signed_inf a PInf"
| "fmul (Fin a) NInf = signed_inf a NInf"
| "fmul PInf (Fin b) = signed_inf b PInf"
| "fmul NInf (Fin b) = signed_inf b NInf"
| "fmul PInf PInf = PInf"
| "fmul PInf NInf = NInf"
| "fmul NInf PInf = NInf"
| "fmul NInf NInf = PInf"

text \<open>A finite number divided by zero: the zero is taken as the positive one (the
  calculator divides by the literal 100 and by a divisor greater than 1 only).\<close>

fun fdiv :: "jsnum \<Rightarrow> jsnum \<Rightarrow> jsnum" where
  "fdiv NaN b = NaN"
| "fdiv a NaN = NaN"
| "fdiv (Fin a) (Fin b) = (if b = 0 then signed_inf a PInf else rnd (a / b))"
| "fdiv (Fin a) PInf = Fin 0"
| "fdiv (Fin a) NInf = Fin 0"
| "fdiv PInf (Fin b) = (if 0 \<le> b then PInf else NInf)"
| "fdiv NInf (Fin b) = (if 0 \<le> b then NInf else PInf)"
| "fdiv PInf b = NaN"
| "fdiv NInf b = NaN"

fun fgt :: "jsnum \<Rightarrow> jsnum \<Rightarrow> bool" where
  "fgt NaN b = False"
| "fgt a NaN = False"
| "fgt (Fin a) (Fin b) = (b < a)"
| "fgt (Fin a) PInf = False"
| "fgt (Fin a) NInf = True"
| "fgt PInf PInf = False"
| "fgt PInf b = True"
| "fgt NInf b = False"

text \<open>\<^verbatim>\<open>Math.round\<close>: the nearest integer, a tie going towards plus infinity; the
  infinities and NaN are returned as they are.\<close>

fun math_round :: "jsnum \<Rightarrow> jsnum" where
  "math_round (Fin q) = Fin (of_int \<lfloor>q + 1 / 2\<rfloor>)"
| "math_round PInf = PInf"
| "math_round NInf = NInf"
| "math_round NaN = NaN"

text \<open>A decimal literal (of the source, of a form field or of the stored JSON text)
  denotes the binary64 value nearest to it.\<close>

definition lit :: "rat \<Rightarrow> jsnum" where
  "lit r = rnd r"

section \<open>Data model (types.ts)\<close>

text \<open>
  The interfaces \<^verbatim>\<open>LineItem\<close> and \<^verbatim>\<open>Quotation\<close>. What a field declared \<^verbatim>\<open>number\<close> holds is the
  parameter \<open>'n\<close> of the record: a number (\<open>jsnum\<close>) for a quotation as the interface
  declares it, the type the totals are computed on; a number or \<^verbatim>\<open>null\<close> (\<open>jsnum option\<close>) for the
  objects that the running application holds and stores, where \<^verbatim>\<open>JSON.parse\<close> can put a
  \<^verbatim>\<open>null\<close> into such a field.
\<close>

record 'n LineItem =
  id_item :: string
  description :: string
  quantity :: 'n
  unitAmount :: 'n

datatype status = Draft | Sent | Accepted | Rejected

record 'n Quotation =
  id_quote :: string
  quoteNumber :: string
  date :: string
  customerName :: string
  customerPhone :: string
  customerEmail :: string
  customerAddress :: string
  vehicleMake :: string
  vehicleModel :: string
  vehicleYear :: string
  lineItems :: "'n LineItem list"
  discount :: 'n
  taxRate :: 'n
  "notes" :: string
  status :: status

type_synonym line_item = "jsnum LineItem"

type_synonym quotation = "jsnum Quotation"

type_synonym line_item_object = "jsnum option LineItem"

type_synonym quotation_object = "jsnum option Quotation"

text \<open>The optional fields of \<^verbatim>\<open>CompanyDetails\<close> (\<^verbatim>\<open>upiQrCode?\<close>, ..., \<^verbatim>\<open>password?\<close>) are
  \<open>None\<close> when the property is missing.\<close>

record company_details =
  name :: string
  address :: string
  phone :: string
  email :: string
  bankName :: string
  accountHolder :: string
  accountNumber :: string
  ifscCode :: string
  upiId :: string
  upiQrCode :: "string option"
  defaultNotes :: "string option"
  defaultTaxRate :: "jsnum option"
  password :: "string option"

section \<open>The totals of a quotation\<close>

subsection \<open>The edit form (QuotationForm, the memoised totals)\<close>

definition taxDivisor :: "quotation \<Rightarrow> jsnum" where
  "taxDivisor quote =
     fadd (Fin 1) (if fgt (taxRate quote) (Fin 0) then fdiv (taxRate quote) (Fin 100) else Fin 0)"

definition grossTotal :: "quotation \<Rightarrow> jsnum" where
  "grossTotal quote =
     foldl (\<lambda>acc item. fadd acc (fmul (quantity item) (unitAmount item))) (Fin 0) (lineItems quote)"

definition subtotal :: "quotation \<Rightarrow> jsnum" where
  "subtotal quote =
     (if fgt (taxDivisor quote) (Fin 1) then fdiv (grossTotal quote) (taxDivisor quote)
      else grossTotal quote)"

definition totalTax :: "quotation \<Rightarrow> jsnum" where
  "totalTax quote = fsub (grossTotal quote) (subtotal quote)"

definition totalAfterDiscount :: "quotation \<Rightarrow> jsnum" where
  "totalAfterDiscount quote = fsub (grossTotal quote) (discount quote)"

definition grandTotal :: "quotation \<Rightarrow> jsnum" where
  "grandTotal quote = math_round (totalAfterDiscount quote)"

definition roundOff :: "quotation \<Rightarrow> jsnum" where
  "roundOff quote = fsub (grandTotal quote) (totalAfterDiscount quote)"

text \<open>The object the memoised computation returns.\<close>

record totals =
  subtotal_of :: jsnum
  totalTax_of :: jsnum
  roundOff_of :: jsnum
  grandTotal_of :: jsnum

definition form_totals :: "quotation \<Rightarrow> totals" where
  "form_totals quote =
     \<lparr>subtotal_of = subtotal quote, totalTax_of = totalTax quote,
      roundOff_of = roundOff quote, grandTotal_of = grandTotal quote\<rparr>"

subsection \<open>The preview (QuotationPreview)\<close>

definition preview_taxDivisor :: "quotation \<Rightarrow> jsnum" where
  "preview_taxDivisor quote =
     fadd (Fin 1) (if fgt (taxRate quote) (Fin 0) then fdiv (taxRate quote) (Fin 100) else Fin 0)"

definition preview_grossTotal :: "quotation \<Rightarrow> jsnum" where
  "preview_grossTotal quote =
     foldl (\<lambda>acc item. fadd acc (fmul (quantity item) (unitAmount item))) (Fin 0) (lineItems quote)"

definition preview_subtotal :: "quotation \<Rightarrow> jsnum" where
  "preview_subtotal quote =
     (if fgt (preview_taxDivisor quote) (Fin 1)
      then fdiv (preview_grossTotal quote) (preview_taxDivisor quote)
      else preview_grossTotal quote)"

definition preview_totalTax :: "quotation \<Rightarrow> jsnum" where
  "preview_totalTax quote = fsub (preview_grossTotal quote) (preview_subtotal quote)"

definition preview_totalAfterDiscount :: "quotation \<Rightarrow> jsnum" where
  "preview_totalAfterDiscount quote = fsub (preview_grossTotal quote) (discount quote)"

definition preview_grandTotal :: "quotation \<Rightarrow> jsnum" where
  "preview_grandTotal quote = math_round (preview_totalAfterDiscount quote)"

definition preview_roundOff :: "quotation \<Rightarrow> jsnum" where
  "preview_roundOff quote = fsub (preview_grandTotal quote) (preview_totalAfterDiscount quote)"

definition preview_totals :: "quotation \<Rightarrow> totals" where
  "preview_totals quote =
     \<lparr>subtotal_of = preview_subtotal quote, totalTax_of = preview_totalTax quote,
      roundOff_of = preview_roundOff quote, grandTotal_of = preview_grandTotal quote\<rparr>"

subsection \<open>The card of the saved-quotes list (QuoteCard)\<close>

definition card_grossTotal :: "quotation \<Rightarrow> jsnum" where
  "card_grossTotal quote =
     foldl (\<lambda>acc item. fadd acc (fmul (quantity item) (unitAmount item))) (Fin 0) (lineItems quote)"

definition card_totalAfterDiscount :: "quotation \<Rightarrow> jsnum" where
  "card_totalAfterDiscount quote = fsub (card_grossTotal quote) (discount quote)"

definition card_grandTotal :: "quotation \<Rightarrow> jsnum" where
  "card_grandTotal quote = math_round (card_totalAfterDiscount quote)"

subsection \<open>The exact total of the line items\<close>

text \<open>
  The sum of the products in exact arithmetic, for comparison with the computed gross
  total, and the numbers that are non-negative integers.
\<close>

fun nat_valued :: "jsnum \<Rightarrow> bool" where
  "nat_valued (Fin q) = (0 \<le> q \<and> of_int \<lfloor>q\<rfloor> = q)"
| "nat_valued PInf = False"
| "nat_valued NInf = False"
| "nat_valued NaN = False"

fun fin_value :: "jsnum \<Rightarrow> rat" where
  "fin_value (Fin q) = q"
| "fin_value PInf = 0"
| "fin_value NInf = 0"
| "fin_value NaN = 0"

definition exact_total :: "line_item list \<Rightarrow> rat" where
  "exact_total items = sum_list (map (\<lambda>item. fin_value (quantity item) * fin_value (unitAmount item)) items)"

section \<open>The quote number (generateQuoteNumber)\<close>

text \<open>\<^verbatim>\<open>toString\<close> of a natural number, \<^verbatim>\<open>padStart\<close> with a one-character filler,
  \<^verbatim>\<open>slice(-n)\<close> and \<^verbatim>\<open>startsWith\<close>.\<close>

definition digit_char :: "nat \<Rightarrow> char" where
  "digit_char n = ''0123456789'' ! n"

fun toString_nat :: "nat \<Rightarrow> string" where
  "toString_nat n =
     (if n < 10 then [digit_char n] else toString_nat (n div 10) @ [digit_char (n mod 10)])"

declare toString_nat.simps [simp del]

definition padStart :: "nat \<Rightarrow> char \<Rightarrow> string \<Rightarrow> string" where
  "padStart n c s = replicate (n - length s) c @ s"

definition slice_last :: "nat \<Rightarrow> string \<Rightarrow> string" where
  "slice_last n s = drop (length s - n) s"

definition startsWith :: "string \<Rightarrow> string \<Rightarrow> bool" where
  "startsWith s p = (take (length p) s = p)"

text \<open>What \<^verbatim>\<open>new Date()\<close> gives: the day of the month (1 to 31), the index of the
  month (0 to 11) and the year.\<close>

record js_date =
  getDate :: nat
  getMonth :: nat
  getFullYear :: nat

definition datePrefix :: "js_date \<Rightarrow> string" where
  "datePrefix d =
     (let day = padStart 2 CHR ''0'' (toString_nat (getDate d));
          month = padStart 2 CHR ''0'' (toString_nat (getMonth d + 1));
          year = slice_last 2 (toString_nat (getFullYear d))
      in ''QT-'' @ day @ month @ year)"

definition todayQuotes :: "js_date \<Rightarrow> 'n Quotation list \<Rightarrow> 'n Quotation list" where
  "todayQuotes d existingQuotes =
     filter (\<lambda>q. startsWith (quoteNumber q) (datePrefix d)) existingQuotes"

definition generateQuoteNumber :: "js_date \<Rightarrow> 'n Quotation list \<Rightarrow> string" where
  "generateQuoteNumber d existingQuotes =
     (let nextSerial = length (todayQuotes d existingQuotes) + 1;
          serialNumber = padStart 4 CHR ''0'' (toString_nat nextSerial)
      in datePrefix d @ ''-'' @ serialNumber)"

subsection \<open>The format in the words of the specification\<close>

text \<open>
  \<open>QT-DDMMYY-NNNN\<close>: two decimal digits each for the day, the month and the year, and
  four for the serial, which is one more than the number of quote numbers that start
  with the prefix.
\<close>

definition two_digits :: "nat \<Rightarrow> string" where
  "two_digits n = [digit_char (n div 10 mod 10), digit_char (n mod 10)]"

definition four_digits :: "nat \<Rightarrow> string" where
  "four_digits n =
     [digit_char (n div 1000 mod 10), digit_char (n div 100 mod 10),
      digit_char (n div 10 mod 10), digit_char (n mod 10)]"

definition spec_quoteNumber :: "js_date \<Rightarrow> 'n Quotation list \<Rightarrow> string" where
  "spec_quoteNumber d existingQuotes =
     (let prefix = ''QT-'' @ two_digits (getDate d) @ two_digits (getMonth d + 1)
                     @ two_digits (getFullYear d);
          count = length (filter (\<lambda>q. startsWith (quoteNumber q) prefix) existingQuotes)
      in prefix @ ''-'' @ four_digits (count + 1))"

section \<open>The application (App) and the browser's stores\<close>

text \<open>
  What \<^verbatim>\<open>getItem\<close> followed by \<^verbatim>\<open>JSON.parse\<close> makes of a key of the local storage: no
  item, the empty text (which the code skips like no item), a text that
  \<^verbatim>\<open>JSON.parse\<close> rejects, or a text and the value it parses to.
\<close>

datatype 'a item = NoItem | EmptyText | BadText | JsonText 'a

text \<open>The object parsed from the stored company details: any property may be missing.\<close>

record parsed_details =
  p_name :: "string option"
  p_address :: "string option"
  p_phone :: "string option"
  p_email :: "string option"
  p_bankName :: "string option"
  p_accountHolder :: "string option"
  p_accountNumber :: "string option"
  p_ifscCode :: "string option"
  p_upiId :: "string option"
  p_upiQrCode :: "string option"
  p_defaultNotes :: "string option"
  p_defaultTaxRate :: "jsnum option"
  p_password :: "string option"

text \<open>
  The quotations in the store. \<^verbatim>\<open>JSON.stringify\<close> writes a finite number with the digits
  that \<^verbatim>\<open>JSON.parse\<close> reads back as the same number (a negative zero comes back as zero, and
  the two are one value here), and it writes \<^verbatim>\<open>NaN\<close>, \<^verbatim>\<open>Infinity\<close> and \<^verbatim>\<open>-Infinity\<close> as \<^verbatim>\<open>null\<close>;
  strings come back as they were. \<open>json_quotation\<close> is the object that the text written
  for a quotation object parses to.
\<close>

fun json_number :: "jsnum option \<Rightarrow> jsnum option" where
  "json_number None = None"
| "json_number (Some (Fin r)) = Some (Fin r)"
| "json_number (Some PInf) = None"
| "json_number (Some NInf) = None"
| "json_number (Some NaN) = None"

definition map_line_item :: "('a \<Rightarrow> 'b) \<Rightarrow> 'a LineItem \<Rightarrow> 'b LineItem" where
  "map_line_item f item =
     \<lparr>id_item = id_item item, description = description item,
      quantity = f (quantity item), unitAmount = f (unitAmount item)\<rparr>"

definition map_quotation :: "('a \<Rightarrow> 'b) \<Rightarrow> 'a Quotation \<Rightarrow> 'b Quotation" where
  "map_quotation f q =
     \<lparr>id_quote = id_quote q, quoteNumber = quoteNumber q, date = date q,
      customerName = customerName q, customerPhone = customerPhone q,
      customerEmail = customerEmail q, customerAddress = customerAddress q,
      vehicleMake = vehicleMake q, vehicleModel = vehicleModel q, vehicleYear = vehicleYear q,
      lineItems = map (map_line_item f) (lineItems q),
      discount = f (discount q), taxRate = f (taxRate q), notes = notes q, status = status q\<rparr>"

definition json_quotation :: "quotation_object \<Rightarrow> quotation_object" where
  "json_quotation = map_quotation json_number"

text \<open>A quotation of the declared type, as an object of the running application.\<close>

definition object_of :: "quotation \<Rightarrow> quotation_object" where
  "object_of = map_quotation Some"

text \<open>The numbers that the arithmetic of the totals reads from an object: \<^verbatim>\<open>*\<close>, \<^verbatim>\<open>-\<close>, \<^verbatim>\<open>/\<close> and
  \<^verbatim>\<open>>\<close> convert their operands to numbers, and \<^verbatim>\<open>null\<close> converts to 0.\<close>

fun toNumber :: "jsnum option \<Rightarrow> jsnum" where
  "toNumber None = Fin 0"
| "toNumber (Some x) = x"

definition numbers_of :: "quotation_object \<Rightarrow> quotation" where
  "numbers_of = map_quotation toNumber"

text \<open>The number fields that hold a finite number.\<close>

fun finite_number :: "jsnum option \<Rightarrow> bool" where
  "finite_number (Some (Fin r)) = True"
| "finite_number x = False"

definition finite_numbers :: "quotation_object \<Rightarrow> bool" where
  "finite_numbers q =
     (finite_number (discount q) \<and> finite_number (taxRate q) \<and>
      list_all (\<lambda>item. finite_number (quantity item) \<and> finite_number (unitAmount item))
        (lineItems q))"

text \<open>
  The browser: the two keys of the local storage and the key of the session storage;
  whether every access to a storage throws (the storage is disabled), and whether
  \<^verbatim>\<open>setItem\<close> on it throws (its quota is used up). \<^verbatim>\<open>getItem\<close> throws in the first case,
  \<^verbatim>\<open>setItem\<close> in both.
\<close>

record browser =
  ls_tyreQuotes :: "quotation_object list item"
  ls_companyDetails :: "parsed_details item"
  ss_isAuthenticated :: "string option"
  ls_throws :: bool
  ss_throws :: bool
  ls_full :: bool
  ss_full :: bool

datatype view = ListView | FormView

record app =
  view :: view
  quotes :: "quotation_object list"
  selectedQuote :: "quotation_object option"
  isSettingsOpen :: bool
  companyDetails :: company_details
  isAuthenticated :: bool
  isAppReady :: bool

definition defaultCompanyDetails :: company_details where
  "defaultCompanyDetails =
     \<lparr>name = ''HINDUSTAN TYRES'',
      address = ''123 Tyre Avenue, Auto City, 54321'',
      phone = ''+91 98765 43210'',
      email = ''sales@hindustantyres.com'',
      bankName = ''State Bank of India'',
      accountHolder = ''HINDUSTAN TYRES'',
      accountNumber = ''12345678901'',
      ifscCode = ''SBIN0001234'',
      upiId = ''hindustantyres@upi'',
      upiQrCode = Some [],
      defaultNotes = Some (''1. All prices are inclusive of taxes.'' @ [CHR 0x0A]
        @ ''2. Warranty as per manufacturer terms.'' @ [CHR 0x0A]
        @ ''3. This quotation is valid for 7 days.''),
      defaultTaxRate = Some (Fin 18),
      password = None\<rparr>"

definition initial_app :: app where
  "initial_app =
     \<lparr>view = ListView, quotes = [], selectedQuote = None, isSettingsOpen = False,
      companyDetails = defaultCompanyDetails, isAuthenticated = False, isAppReady = False\<rparr>"

text \<open>The spread \<^verbatim>\<open>{ ...defaultCompanyDetails, ...JSON.parse(savedDetails) }\<close>: a property
  of the parsed object replaces the default one.\<close>

definition or_default :: "'a option \<Rightarrow> 'a \<Rightarrow> 'a" where
  "or_default p d = (case p of None \<Rightarrow> d | Some v \<Rightarrow> v)"

definition or_default_opt :: "'a option \<Rightarrow> 'a option \<Rightarrow> 'a option" where
  "or_default_opt p d = (case p of None \<Rightarrow> d | Some v \<Rightarrow> Some v)"

definition merge_details :: "company_details \<Rightarrow> parsed_details \<Rightarrow> company_details" where
  "merge_details d p =
     \<lparr>name = or_default (p_name p) (name d),
      address = or_default (p_address p) (address d),
      phone = or_default (p_phone p) (phone d),
      email = or_default (p_email p) (email d),
      bankName = or_default (p_bankName p) (bankName d),
      accountHolder = or_default (p_accountHolder p) (accountHolder d),
      accountNumber = or_default (p_accountNumber p) (accountNumber d),
      ifscCode = or_default (p_ifscCode p) (ifscCode d),
      upiId = or_default (p_upiId p) (upiId d),
      upiQrCode = or_default_opt (p_upiQrCode p) (upiQrCode d),
      defaultNotes = or_default_opt (p_defaultNotes p) (defaultNotes d),
      defaultTaxRate = or_default_opt (p_defaultTaxRate p) (defaultTaxRate d),
      password = or_default_opt (p_password p) (password d)\<rparr>"

subsection \<open>Start-up: the effect that loads the stores\<close>

text \<open>
  The \<^verbatim>\<open>try\<close> block, statement by statement. A statement that throws gives \<open>Inl\<close> of the
  state reached so far, and the \<^verbatim>\<open>catch\<close> block takes over from there.
\<close>

definition load_quotes :: "browser \<Rightarrow> app \<Rightarrow> app + app" where
  "load_quotes b st =
     (if ls_throws b then Inl st
      else case ls_tyreQuotes b of
             NoItem \<Rightarrow> Inr st
           | EmptyText \<Rightarrow> Inr st
           | BadText \<Rightarrow> Inl st
           | JsonText qs \<Rightarrow> Inr (st\<lparr>quotes := qs\<rparr>))"

definition load_details :: "browser \<Rightarrow> app \<Rightarrow> app + app" where
  "load_details b st =
     (if ls_throws b then Inl st
      else case ls_companyDetails b of
             NoItem \<Rightarrow> Inr (st\<lparr>companyDetails := defaultCompanyDetails\<rparr>)
           | EmptyText \<Rightarrow> Inr (st\<lparr>companyDetails := defaultCompanyDetails\<rparr>)
           | BadText \<Rightarrow> Inl st
           | JsonText p \<Rightarrow> Inr (st\<lparr>companyDetails := merge_details defaultCompanyDetails p\<rparr>))"

text \<open>\<^verbatim>\<open>!!details.password\<close>: a missing and an empty password are both falsy.\<close>

definition passwordIsSet :: "company_details \<Rightarrow> bool" where
  "passwordIsSet details = (case password details of None \<Rightarrow> False | Some pw \<Rightarrow> pw \<noteq> [])"

definition authenticate :: "browser \<Rightarrow> app \<Rightarrow> app + app" where
  "authenticate b st =
     (if \<not> passwordIsSet (companyDetails st) then Inr (st\<lparr>isAuthenticated := True\<rparr>)
      else if ss_throws b then Inl st
      else if ss_isAuthenticated b = Some ''true'' then Inr (st\<lparr>isAuthenticated := True\<rparr>)
      else Inr (st\<lparr>isAuthenticated := False\<rparr>))"

definition try_block :: "browser \<Rightarrow> app \<Rightarrow> app + app" where
  "try_block b st =
     (case load_quotes b st of
        Inl st1 \<Rightarrow> Inl st1
      | Inr st1 \<Rightarrow>
          (case load_details b st1 of
             Inl st2 \<Rightarrow> Inl st2
           | Inr st2 \<Rightarrow> authenticate b st2))"

definition catch_block :: "app \<Rightarrow> app" where
  "catch_block st =
     st\<lparr>quotes := [], companyDetails := defaultCompanyDetails, isAuthenticated := True\<rparr>"

definition finally_block :: "app \<Rightarrow> app" where
  "finally_block st = st\<lparr>isAppReady := True\<rparr>"

definition startup :: "browser \<Rightarrow> app \<Rightarrow> app" where
  "startup b st =
     finally_block (case try_block b st of Inl st' \<Rightarrow> catch_block st' | Inr st' \<Rightarrow> st')"

subsection \<open>The login screen\<close>

text \<open>The state of the LoginScreen component: the text of the input field and the
  message shown under it (\<^verbatim>\<open>password\<close> and \<^verbatim>\<open>error\<close> in the source).\<close>

record login_screen =
  password_field :: string
  error_message :: string

text \<open>
  \<^verbatim>\<open>handleLoginSuccess\<close> of App: \<^verbatim>\<open>sessionStorage.setItem\<close>, then \<^verbatim>\<open>setIsAuthenticated(true)\<close>,
  with no \<^verbatim>\<open>try\<close> around them. When \<^verbatim>\<open>setItem\<close> throws, the second statement is not reached
  and the exception leaves the handler: \<open>Inl\<close> of the state reached so far.
\<close>

definition handleLoginSuccess :: "browser \<times> app \<Rightarrow> (browser \<times> app) + (browser \<times> app)" where
  "handleLoginSuccess w =
     (case w of (b, st) \<Rightarrow>
        if ss_throws b \<or> ss_full b then Inl (b, st)
        else Inr (b\<lparr>ss_isAuthenticated := Some ''true''\<rparr>, st\<lparr>isAuthenticated := True\<rparr>))"

text \<open>\<^verbatim>\<open>handleSubmit\<close> of the login screen, with \<^verbatim>\<open>onLoginSuccess\<close> bound to
  \<^verbatim>\<open>handleLoginSuccess\<close> as App does. An exception of \<^verbatim>\<open>onLoginSuccess\<close> leaves
  \<^verbatim>\<open>handleSubmit\<close> too, after \<^verbatim>\<open>setError('')\<close>.\<close>

definition handleSubmit_login ::
  "string \<Rightarrow> login_screen \<times> browser \<times> app \<Rightarrow>
     (login_screen \<times> browser \<times> app) + (login_screen \<times> browser \<times> app)" where
  "handleSubmit_login storedPassword s =
     (case s of (ls, w) \<Rightarrow>
        if password_field ls = storedPassword
        then (case handleLoginSuccess w of
                Inl w' \<Rightarrow> Inl (ls\<lparr>error_message := []\<rparr>, w')
              | Inr w' \<Rightarrow> Inr (ls\<lparr>error_message := []\<rparr>, w'))
        else Inr (ls\<lparr>error_message := ''Incorrect password. Please try again.'',
                    password_field := []\<rparr>, w))"

subsection \<open>Saving and deleting quotations\<close>

text \<open>\<^verbatim>\<open>findIndex\<close>: the index of the first element that satisfies the test, or -1.\<close>

fun findIndex_from :: "('a \<Rightarrow> bool) \<Rightarrow> 'a list \<Rightarrow> int \<Rightarrow> int" where
  "findIndex_from P [] i = - 1"
| "findIndex_from P (x # xs) i = (if P x then i else findIndex_from P xs (i + 1))"

definition findIndex :: "('a \<Rightarrow> bool) \<Rightarrow> 'a list \<Rightarrow> int" where
  "findIndex P xs = findIndex_from P xs 0"

text \<open>
  \<^verbatim>\<open>saveQuotesToLocalStorage\<close>: inside the \<^verbatim>\<open>try\<close>, \<^verbatim>\<open>localStorage.setItem\<close> with the text of
  \<^verbatim>\<open>JSON.stringify(updatedQuotes)\<close>, then \<^verbatim>\<open>setQuotes(updatedQuotes)\<close>. When \<^verbatim>\<open>setItem\<close> throws,
  \<^verbatim>\<open>setQuotes\<close> is not reached and the \<^verbatim>\<open>catch\<close> only logs: neither the store nor the
  application changes.
\<close>

definition saveQuotesToLocalStorage ::
  "quotation_object list \<Rightarrow> browser \<times> app \<Rightarrow> browser \<times> app" where
  "saveQuotesToLocalStorage updatedQuotes w =
     (case w of (b, st) \<Rightarrow>
        if ls_throws b \<or> ls_full b then (b, st)
        else (b\<lparr>ls_tyreQuotes := JsonText (map json_quotation updatedQuotes)\<rparr>,
              st\<lparr>quotes := updatedQuotes\<rparr>))"

definition updatedQuotes_save ::
  "quotation_object list \<Rightarrow> quotation_object \<Rightarrow> quotation_object list" where
  "updatedQuotes_save qs quote =
     (let existingIndex = findIndex (\<lambda>q. id_quote q = id_quote quote) qs
      in if - 1 < existingIndex then qs[nat existingIndex := quote] else qs @ [quote])"

definition handleSaveQuote :: "quotation_object \<Rightarrow> browser \<times> app \<Rightarrow> browser \<times> app" where
  "handleSaveQuote quote w =
     (case saveQuotesToLocalStorage (updatedQuotes_save (quotes (snd w)) quote) w of
        (b, st) \<Rightarrow> (b, st\<lparr>view := ListView, selectedQuote := None\<rparr>))"

text \<open>\<^verbatim>\<open>handleDeleteQuote\<close>; \<open>confirmed\<close> is the answer of \<^verbatim>\<open>window.confirm\<close>.\<close>

definition handleDeleteQuote :: "bool \<Rightarrow> string \<Rightarrow> browser \<times> app \<Rightarrow> browser \<times> app" where
  "handleDeleteQuote confirmed i w =
     (if confirmed
      then saveQuotesToLocalStorage (filter (\<lambda>q. id_quote q \<noteq> i) (quotes (snd w))) w
      else w)"

text \<open>The company details the start-up effect computes when nothing throws: the stored
  object merged over the defaults, or the defaults when nothing is stored.\<close>

definition stored_details :: "browser \<Rightarrow> company_details" where
  "stored_details b =
     (case ls_companyDetails b of
        JsonText p \<Rightarrow> merge_details defaultCompanyDetails p
      | _ \<Rightarrow> defaultCompanyDetails)"

section \<open>Example values\<close>

definition example_item :: "string \<Rightarrow> jsnum \<Rightarrow> jsnum \<Rightarrow> line_item" where
  "example_item i q u = \<lparr>id_item = i, description = ''Tyre'', quantity = q, unitAmount = u\<rparr>"

definition example_quote :: "string \<Rightarrow> string \<Rightarrow> line_item list \<Rightarrow> jsnum \<Rightarrow> jsnum \<Rightarrow> quotation" where
  "example_quote i n items d r =
     \<lparr>id_quote = i, quoteNumber = n, date = ''2025-01-31'', customerName = ''Asha'',
      customerPhone = [], customerEmail = [], customerAddress = [], vehicleMake = [],
      vehicleModel = [], vehicleYear = [], lineItems = items, discount = d, taxRate = r,
      notes = [], status = Draft\<rparr>"

text \<open>Two line items of one unit at \<^verbatim>\<open>1e308\<close> each: each product is finite, their sum
  is not.\<close>

definition overflow_quote :: quotation where
  "overflow_quote =
     example_quote ''a'' ''QT-1''
       [example_item ''1'' (lit 1) (lit (10 ^ 308)), example_item ''2'' (lit 1) (lit (10 ^ 308))]
       (Fin 0) (Fin 0)"

definition no_details :: parsed_details where
  "no_details =
     \<lparr>p_name = None, p_address = None, p_phone = None, p_email = None, p_bankName = None,
      p_accountHolder = None, p_accountNumber = None, p_ifscCode = None, p_upiId = None,
      p_upiQrCode = None, p_defaultNotes = None, p_defaultTaxRate = None, p_password = None\<rparr>"

definition example_browser :: "parsed_details item \<Rightarrow> string option \<Rightarrow> browser" where
  "example_browser details marker =
     \<lparr>ls_tyreQuotes = NoItem, ls_companyDetails = details, ss_isAuthenticated = marker,
      ls_throws = False, ss_throws = False, ls_full = False, ss_full = False\<rparr>"

text \<open>A browser with the password \<^verbatim>\<open>abc\<close> stored, no marker in the session storage, and
  a session storage whose \<^verbatim>\<open>setItem\<close> throws.\<close>

definition locked_out_browser :: browser where
  "locked_out_browser =
     (example_browser (JsonText (no_details\<lparr>p_password := Some ''abc''\<rparr>)) None)\<lparr>ss_full := True\<rparr>"

text \<open>The application holding three quotations.\<close>

definition stored_three :: app where
  "stored_three =
     initial_app\<lparr>quotes := [object_of (example_quote ''a'' ''QT-1'' [] (Fin 0) (Fin 18)),
                             object_of (example_quote ''b'' ''QT-2'' [] (Fin 0) (Fin 18)),
                             object_of (example_quote ''c'' ''QT-3'' [] (Fin 0) (Fin 18))]\<rparr>"

text \<open>The same with a fourth quotation that repeats the identifier \<^verbatim>\<open>b\<close>.\<close>

definition stored_four :: app where
  "stored_four =
     initial_app\<lparr>quotes := [object_of (example_quote ''a'' ''QT-1'' [] (Fin 0) (Fin 18)),
                             object_of (example_quote ''b'' ''QT-2'' [] (Fin 0) (Fin 18)),
                             object_of (example_quote ''c'' ''QT-3'' [] (Fin 0) (Fin 18)),
                             object_of (example_quote ''b'' ''QT-9'' [] (Fin 0) (Fin 18))]\<rparr>"

section \<open>The session gate\<close>

text \<open>
  The login form in a browser whose session storage accepts the marker: from the locked
  state the application is unlocked exactly when the text of the input field equals the
  stored password (equality of the two strings, character by character), and then the
  marker is in the session storage.
\<close>

lemma login_accepted:
  assumes "\<not> ss_throws b" and "\<not> ss_full b" and "\<not> isAuthenticated st"
  shows "\<exists>ls' b' st'. handleSubmit_login secret (ls, b, st) = Inr (ls', b', st') \<and>
    (isAuthenticated st' \<longleftrightarrow> password_field ls = secret) \<and>
    (password_field ls = secret \<longrightarrow> ss_isAuthenticated b' = Some ''true'')"
  using assms by (simp add: handleSubmit_login_def handleLoginSuccess_def)

text \<open>
  An input that differs from the stored password changes nothing in the application and
  the browser; the input field is cleared and the error message is set.
\<close>

lemma login_rejected:
  assumes "password_field ls \<noteq> secret"
  shows "handleSubmit_login secret (ls, b, st) =
    Inr (ls\<lparr>error_message := ''Incorrect password. Please try again.'', password_field := []\<rparr>,
         b, st)"
  using assms by (simp add: handleSubmit_login_def)

lemma login_case_sensitive:
  "handleSubmit_login ''abc''
     (\<lparr>password_field = ''ABC'', error_message = []\<rparr>, example_browser NoItem None, initial_app)
   = Inr (\<lparr>password_field = [], error_message = ''Incorrect password. Please try again.''\<rparr>,
          example_browser NoItem None, initial_app)"
  by (simp add: handleSubmit_login_def)

text \<open>
  C3. The password \<^verbatim>\<open>abc\<close> is stored, the session storage holds no marker and its \<^verbatim>\<open>setItem\<close>
  throws. The application starts locked with the login screen comparing against \<^verbatim>\<open>abc\<close>;
  submitting \<^verbatim>\<open>abc\<close> ends in the exception of \<^verbatim>\<open>setItem\<close>, and the application is still
  locked: the input equals the password and the gate does not open.
\<close>

theorem login_setItem_throws:
  "password (companyDetails (startup locked_out_browser initial_app)) = Some ''abc'' \<and>
   \<not> isAuthenticated (startup locked_out_browser initial_app) \<and>
   handleSubmit_login ''abc''
     (\<lparr>password_field = ''abc'', error_message = []\<rparr>, locked_out_browser,
      startup locked_out_browser initial_app)
   = Inl (\<lparr>password_field = ''abc'', error_message = []\<rparr>, locked_out_browser,
          startup locked_out_browser initial_app)"
  by (simp add: handleSubmit_login_def handleLoginSuccess_def locked_out_browser_def
      example_browser_def startup_def finally_block_def try_block_def load_quotes_def
      load_details_def authenticate_def passwordIsSet_def merge_details_def no_details_def
      or_default_def or_default_opt_def defaultCompanyDetails_def initial_app_def)

text \<open>
  C4. When loading the stores does not throw, the application starts unlocked exactly when
  the loaded company details carry no (non-empty) password or the session storage holds
  the marker \<^verbatim>\<open>isAuthenticated = 'true'\<close>; with no password it is unlocked whatever the session
  storage holds, and with a password and no marker it is locked.
\<close>

theorem startup_gate:
  assumes "\<not> ls_throws b" and "ls_tyreQuotes b \<noteq> BadText" and "ls_companyDetails b \<noteq> BadText"
    and "\<not> (ss_throws b \<and> passwordIsSet (stored_details b))"
  shows "companyDetails (startup b st) = stored_details b \<and>
    isAuthenticated (startup b st) =
      (\<not> passwordIsSet (companyDetails (startup b st)) \<or> ss_isAuthenticated b = Some ''true'') \<and>
    isAppReady (startup b st)"
proof -
  have "try_block b st =
      Inr (st\<lparr>quotes := (case ls_tyreQuotes b of JsonText qs \<Rightarrow> qs | _ \<Rightarrow> quotes st),
        companyDetails := stored_details b,
        isAuthenticated :=
          (\<not> passwordIsSet (stored_details b) \<or> ss_isAuthenticated b = Some ''true'')\<rparr>)"
    using assms
    by (cases "ls_tyreQuotes b"; cases "ls_companyDetails b")
       (auto simp: try_block_def load_quotes_def load_details_def authenticate_def
          stored_details_def)
  then show ?thesis
    by (simp add: startup_def finally_block_def)
qed

theorem startup_gate_witness:
  "isAuthenticated (startup (example_browser NoItem None) initial_app) \<and>
   isAuthenticated (startup (example_browser (JsonText no_details) (Some ''false'')) initial_app) \<and>
   \<not> isAuthenticated
      (startup (example_browser (JsonText (no_details\<lparr>p_password := Some ''abc''\<rparr>)) None) initial_app) \<and>
   \<not> isAuthenticated
      (startup (example_browser (JsonText (no_details\<lparr>p_password := Some ''abc''\<rparr>)) (Some ''false''))
         initial_app) \<and>
   isAuthenticated
      (startup (example_browser (JsonText (no_details\<lparr>p_password := Some ''abc''\<rparr>)) (Some ''true''))
         initial_app)"
  using
    startup_gate [of "example_browser NoItem None" initial_app]
    startup_gate [of "example_browser (JsonText no_details) (Some ''false'')" initial_app]
    startup_gate [of "example_browser (JsonText (no_details\<lparr>p_password := Some ''abc''\<rparr>)) None"
      initial_app]
    startup_gate [of
      "example_browser (JsonText (no_details\<lparr>p_password := Some ''abc''\<rparr>)) (Some ''false'')"
      initial_app]
    startup_gate [of
      "example_browser (JsonText (no_details\<lparr>p_password := Some ''abc''\<rparr>)) (Some ''true'')"
      initial_app]
  by (simp add: example_browser_def stored_details_def passwordIsSet_def merge_details_def
      no_details_def or_default_def or_default_opt_def defaultCompanyDetails_def)

text \<open>
  C10. When reading the local storage throws, or a stored text does not parse (or reading
  the session storage throws while a password is set), start-up ends with the empty list
  of quotations, the default company details and the application unlocked, whatever
  password the stored details carry.
\<close>

theorem startup_fail_open:
  assumes "ls_throws b \<or> ls_tyreQuotes b = BadText \<or> ls_companyDetails b = BadText
     \<or> (ss_throws b \<and> passwordIsSet (stored_details b))"
  shows "startup b st =
    st\<lparr>quotes := [], companyDetails := defaultCompanyDetails,
       isAuthenticated := True, isAppReady := True\<rparr>"
  using assms
  by (cases "ls_tyreQuotes b"; cases "ls_companyDetails b")
     (auto simp: startup_def finally_block_def catch_block_def try_block_def load_quotes_def
        load_details_def authenticate_def stored_details_def)

theorem startup_fail_open_witness:
  "ls_tyreQuotes ((example_browser (JsonText (no_details\<lparr>p_password := Some ''abc''\<rparr>)) None)
      \<lparr>ls_tyreQuotes := BadText\<rparr>) = BadText \<and>
   passwordIsSet (stored_details ((example_browser (JsonText (no_details\<lparr>p_password := Some ''abc''\<rparr>)) None)
      \<lparr>ls_tyreQuotes := BadText\<rparr>)) \<and>
   startup ((example_browser (JsonText (no_details\<lparr>p_password := Some ''abc''\<rparr>)) None)
      \<lparr>ls_tyreQuotes := BadText\<rparr>) initial_app
   = initial_app\<lparr>isAuthenticated := True, isAppReady := True\<rparr>"
  using startup_fail_open [of
      "(example_browser (JsonText (no_details\<lparr>p_password := Some ''abc''\<rparr>)) None)
         \<lparr>ls_tyreQuotes := BadText\<rparr>" initial_app]
  by (simp add: example_browser_def stored_details_def passwordIsSet_def merge_details_def
      no_details_def or_default_def or_default_opt_def defaultCompanyDetails_def initial_app_def)

section \<open>Saving and deleting\<close>

lemma findIndex_from_none:
  "\<forall>x\<in>set xs. \<not> P x \<Longrightarrow> findIndex_from P xs i = - 1"
  by (induction xs arbitrary: i) auto

lemma findIndex_from_first:
  "\<forall>x\<in>set pre. \<not> P x \<Longrightarrow> P y \<Longrightarrow>
     findIndex_from P (pre @ y # post) i = i + int (length pre)"
  by (induction pre arbitrary: i) auto

lemma updatedQuotes_save_replace:
  assumes "\<forall>q\<in>set pre. id_quote q \<noteq> id_quote quote" and "id_quote old = id_quote quote"
  shows "updatedQuotes_save (pre @ old # post) quote = pre @ quote # post"
  using assms by (simp add: updatedQuotes_save_def findIndex_def findIndex_from_first)

lemma updatedQuotes_save_append:
  assumes "\<forall>q\<in>set qs. id_quote q \<noteq> id_quote quote"
  shows "updatedQuotes_save qs quote = qs @ [quote]"
  using assms by (simp add: updatedQuotes_save_def findIndex_def findIndex_from_none)

lemma json_quotation_id: "id_quote (json_quotation q) = id_quote q"
  by (simp add: json_quotation_def map_quotation_def)

lemma json_number_finite: "finite_number x \<Longrightarrow> json_number x = x"
  by (induction x rule: finite_number.induct) simp_all

lemma json_line_item_finite:
  assumes "finite_number (quantity item)" and "finite_number (unitAmount item)"
  shows "map_line_item json_number item = item"
  using assms by (cases item) (simp add: map_line_item_def json_number_finite)

lemma json_quotation_finite:
  assumes "finite_numbers q"
  shows "json_quotation q = q"
proof -
  have "map (map_line_item json_number) (lineItems q) = lineItems q"
    using assms
    by (intro map_idI) (simp add: finite_numbers_def list_all_iff json_line_item_finite)
  then show ?thesis
    using assms
    by (cases q) (simp add: json_quotation_def map_quotation_def finite_numbers_def
        json_number_finite)
qed

lemma filter_id_fresh:
  assumes "\<forall>q\<in>set qs. id_quote q \<noteq> i"
  shows "filter (\<lambda>q. id_quote q = i) (map json_quotation qs) = []"
  using assms by (simp add: filter_empty_conv json_quotation_id)

text \<open>
  C8. When the storage accepts the write: saving a quotation whose identifier occurs in
  the collection puts it in the place of the first record with that identifier, the
  records before and after it staying as they are (so the length does not change); saving
  a quotation whose identifier does not occur appends it. The store then holds the text
  of the new collection, record by record, and after an append exactly one of the stored
  records has that identifier, the stored form of the saved quotation. The stored form of
  a quotation whose number fields are all finite is the quotation itself. When the write
  throws, the collection stays as it was, in the application and in the store, and the
  application returns to the list all the same.
\<close>

theorem save_quote:
  "(\<not> ls_throws b \<and> \<not> ls_full b \<longrightarrow>
      ((\<forall>q\<in>set pre. id_quote q \<noteq> id_quote quote) \<and> id_quote old = id_quote quote \<and>
         quotes st = pre @ old # post \<longrightarrow>
         handleSaveQuote quote (b, st) =
           (b\<lparr>ls_tyreQuotes :=
                JsonText (map json_quotation pre @ json_quotation quote # map json_quotation post)\<rparr>,
            st\<lparr>quotes := pre @ quote # post, view := ListView, selectedQuote := None\<rparr>) \<and>
         length (pre @ quote # post) = length (quotes st)) \<and>
      ((\<forall>q\<in>set (quotes st). id_quote q \<noteq> id_quote quote) \<longrightarrow>
         handleSaveQuote quote (b, st) =
           (b\<lparr>ls_tyreQuotes := JsonText (map json_quotation (quotes st) @ [json_quotation quote])\<rparr>,
            st\<lparr>quotes := quotes st @ [quote], view := ListView, selectedQuote := None\<rparr>) \<and>
         filter (\<lambda>q. id_quote q = id_quote quote) (map json_quotation (quotes st) @ [json_quotation quote])
           = [json_quotation quote])) \<and>
   (finite_numbers quote \<longrightarrow> json_quotation quote = quote) \<and>
   (ls_throws b \<or> ls_full b \<longrightarrow>
      handleSaveQuote quote (b, st) = (b, st\<lparr>view := ListView, selectedQuote := None\<rparr>))"
  by (auto simp: handleSaveQuote_def saveQuotesToLocalStorage_def updatedQuotes_save_replace
      updatedQuotes_save_append filter_id_fresh json_quotation_id json_quotation_finite)

theorem save_quote_witness:
  "handleSaveQuote (object_of (example_quote ''b'' ''QT-2'' [] (Fin 5) (Fin 18)))
     (example_browser NoItem None, stored_four)
   = ((example_browser NoItem None)
        \<lparr>ls_tyreQuotes := JsonText [object_of (example_quote ''a'' ''QT-1'' [] (Fin 0) (Fin 18)),
                              object_of (example_quote ''b'' ''QT-2'' [] (Fin 5) (Fin 18)),
                              object_of (example_quote ''c'' ''QT-3'' [] (Fin 0) (Fin 18)),
                              object_of (example_quote ''b'' ''QT-9'' [] (Fin 0) (Fin 18))]\<rparr>,
      initial_app\<lparr>quotes := [object_of (example_quote ''a'' ''QT-1'' [] (Fin 0) (Fin 18)),
                              object_of (example_quote ''b'' ''QT-2'' [] (Fin 5) (Fin 18)),
                              object_of (example_quote ''c'' ''QT-3'' [] (Fin 0) (Fin 18)),
                              object_of (example_quote ''b'' ''QT-9'' [] (Fin 0) (Fin 18))]\<rparr>) \<and>
   handleSaveQuote (object_of (example_quote ''d'' ''QT-4'' [] (Fin 0) (Fin 18)))
     (example_browser NoItem None, stored_three)
   = ((example_browser NoItem None)
        \<lparr>ls_tyreQuotes := JsonText [object_of (example_quote ''a'' ''QT-1'' [] (Fin 0) (Fin 18)),
                              object_of (example_quote ''b'' ''QT-2'' [] (Fin 0) (Fin 18)),
                              object_of (example_quote ''c'' ''QT-3'' [] (Fin 0) (Fin 18)),
                              object_of (example_quote ''d'' ''QT-4'' [] (Fin 0) (Fin 18))]\<rparr>,
      initial_app\<lparr>quotes := [object_of (example_quote ''a'' ''QT-1'' [] (Fin 0) (Fin 18)),
                              object_of (example_quote ''b'' ''QT-2'' [] (Fin 0) (Fin 18)),
                              object_of (example_quote ''c'' ''QT-3'' [] (Fin 0) (Fin 18)),
                              object_of (example_quote ''d'' ''QT-4'' [] (Fin 0) (Fin 18))]\<rparr>) \<and>
   finite_numbers (object_of (example_quote ''d'' ''QT-4'' [] (Fin 0) (Fin 18))) \<and>
   json_quotation (object_of (example_quote ''d'' ''QT-4'' [] (Fin 0) (Fin 18)))
     = object_of (example_quote ''d'' ''QT-4'' [] (Fin 0) (Fin 18)) \<and>
   handleSaveQuote (object_of (example_quote ''d'' ''QT-4'' [] (Fin 0) (Fin 18)))
     ((example_browser NoItem None)\<lparr>ls_full := True\<rparr>, stored_three)
   = ((example_browser NoItem None)\<lparr>ls_full := True\<rparr>, stored_three)"
proof -
  have fin: "finite_numbers (object_of (example_quote ''d'' ''QT-4'' [] (Fin 0) (Fin 18)))"
    by (simp add: finite_numbers_def object_of_def map_quotation_def example_quote_def)
  have kept: "json_quotation (object_of (example_quote ''d'' ''QT-4'' [] (Fin 0) (Fin 18)))
      = object_of (example_quote ''d'' ''QT-4'' [] (Fin 0) (Fin 18))"
    using fin
      save_quote [where quote = "object_of (example_quote ''d'' ''QT-4'' [] (Fin 0) (Fin 18))"]
    by blast
  have replaced: "handleSaveQuote (object_of (example_quote ''b'' ''QT-2'' [] (Fin 5) (Fin 18)))
       (example_browser NoItem None, stored_four)
     = ((example_browser NoItem None)
          \<lparr>ls_tyreQuotes := JsonText [object_of (example_quote ''a'' ''QT-1'' [] (Fin 0) (Fin 18)),
                                object_of (example_quote ''b'' ''QT-2'' [] (Fin 5) (Fin 18)),
                                object_of (example_quote ''c'' ''QT-3'' [] (Fin 0) (Fin 18)),
                                object_of (example_quote ''b'' ''QT-9'' [] (Fin 0) (Fin 18))]\<rparr>,
        initial_app\<lparr>quotes := [object_of (example_quote ''a'' ''QT-1'' [] (Fin 0) (Fin 18)),
                                object_of (example_quote ''b'' ''QT-2'' [] (Fin 5) (Fin 18)),
                                object_of (example_quote ''c'' ''QT-3'' [] (Fin 0) (Fin 18)),
                                object_of (example_quote ''b'' ''QT-9'' [] (Fin 0) (Fin 18))]\<rparr>)"
    using
      save_quote [where pre = "[object_of (example_quote ''a'' ''QT-1'' [] (Fin 0) (Fin 18))]"
        and old = "object_of (example_quote ''b'' ''QT-2'' [] (Fin 0) (Fin 18))"
        and post = "[object_of (example_quote ''c'' ''QT-3'' [] (Fin 0) (Fin 18)),
                     object_of (example_quote ''b'' ''QT-9'' [] (Fin 0) (Fin 18))]"
        and quote = "object_of (example_quote ''b'' ''QT-2'' [] (Fin 5) (Fin 18))"
        and b = "example_browser NoItem None" and st = stored_four]
    by (simp add: stored_four_def example_browser_def example_quote_def object_of_def
        json_quotation_def map_quotation_def initial_app_def)
  have appended: "handleSaveQuote (object_of (example_quote ''d'' ''QT-4'' [] (Fin 0) (Fin 18)))
       (example_browser NoItem None, stored_three)
     = ((example_browser NoItem None)
          \<lparr>ls_tyreQuotes := JsonText [object_of (example_quote ''a'' ''QT-1'' [] (Fin 0) (Fin 18)),
                                object_of (example_quote ''b'' ''QT-2'' [] (Fin 0) (Fin 18)),
                                object_of (example_quote ''c'' ''QT-3'' [] (Fin 0) (Fin 18)),
                                object_of (example_quote ''d'' ''QT-4'' [] (Fin 0) (Fin 18))]\<rparr>,
        initial_app\<lparr>quotes := [object_of (example_quote ''a'' ''QT-1'' [] (Fin 0) (Fin 18)),
                                object_of (example_quote ''b'' ''QT-2'' [] (Fin 0) (Fin 18)),
                                object_of (example_quote ''c'' ''QT-3'' [] (Fin 0) (Fin 18)),
                                object_of (example_quote ''d'' ''QT-4'' [] (Fin 0) (Fin 18))]\<rparr>)"
    using
      save_quote [where quote = "object_of (example_quote ''d'' ''QT-4'' [] (Fin 0) (Fin 18))"
        and b = "example_browser NoItem None" and st = stored_three]
    by (simp add: stored_three_def example_browser_def example_quote_def object_of_def
        json_quotation_def map_quotation_def initial_app_def)
  have thrown: "handleSaveQuote (object_of (example_quote ''d'' ''QT-4'' [] (Fin 0) (Fin 18)))
       ((example_browser NoItem None)\<lparr>ls_full := True\<rparr>, stored_three)
     = ((example_browser NoItem None)\<lparr>ls_full := True\<rparr>, stored_three)"
    using
      save_quote [where quote = "object_of (example_quote ''d'' ''QT-4'' [] (Fin 0) (Fin 18))"
        and b = "(example_browser NoItem None)\<lparr>ls_full := True\<rparr>" and st = stored_three]
    by (simp add: stored_three_def initial_app_def)
  from replaced appended fin kept thrown show ?thesis
    by (intro conjI)
qed

text \<open>
  With a local storage whose \<^verbatim>\<open>setItem\<close> throws, saving a quotation with a fresh identifier
  leaves the collection of the application and the store without it. With a storage that
  accepts the write, a quotation whose discount is \<^verbatim>\<open>NaN\<close> is stored with the discount
  \<^verbatim>\<open>null\<close>, not with the field value it was saved with.
\<close>

theorem save_quote_lost:
  "quotes (snd (handleSaveQuote (object_of (example_quote ''d'' ''QT-4'' [] (Fin 0) (Fin 18)))
       ((example_browser NoItem None)\<lparr>ls_full := True\<rparr>, stored_three)))
     = [object_of (example_quote ''a'' ''QT-1'' [] (Fin 0) (Fin 18)),
        object_of (example_quote ''b'' ''QT-2'' [] (Fin 0) (Fin 18)),
        object_of (example_quote ''c'' ''QT-3'' [] (Fin 0) (Fin 18))] \<and>
   ls_tyreQuotes (fst (handleSaveQuote (object_of (example_quote ''d'' ''QT-4'' [] (Fin 0) (Fin 18)))
       ((example_browser NoItem None)\<lparr>ls_full := True\<rparr>, stored_three)))
     = NoItem \<and>
   ls_tyreQuotes (fst (handleSaveQuote (object_of (example_quote ''d'' ''QT-4'' [] NaN (Fin 18)))
       (example_browser NoItem None, initial_app)))
     = JsonText [(object_of (example_quote ''d'' ''QT-4'' [] NaN (Fin 18)))\<lparr>discount := None\<rparr>] \<and>
   (object_of (example_quote ''d'' ''QT-4'' [] NaN (Fin 18)))\<lparr>discount := None\<rparr>
     \<noteq> object_of (example_quote ''d'' ''QT-4'' [] NaN (Fin 18))"
  by (simp add: handleSaveQuote_def saveQuotesToLocalStorage_def updatedQuotes_save_def
      findIndex_def stored_three_def example_browser_def example_quote_def object_of_def
      json_quotation_def map_quotation_def initial_app_def)

text \<open>
  A quotation of the declared type is read back from its object as it was. A line item
  with the unit amount \<^verbatim>\<open>Infinity\<close> is stored with the unit amount \<^verbatim>\<open>null\<close>: the card of the list
  shows the total \<^verbatim>\<open>Infinity\<close> before a reload and 0 after it.
\<close>

lemma numbers_of_object_of: "numbers_of (object_of q) = q"
proof -
  have "map_line_item toNumber (map_line_item Some item) = item" for item :: line_item
    by (cases item) (simp add: map_line_item_def)
  then have "map (map_line_item toNumber) (map (map_line_item Some) (lineItems q)) = lineItems q"
    by (simp add: comp_def)
  then show ?thesis
    by (cases q) (simp add: numbers_of_def object_of_def map_quotation_def)
qed

lemma card_after_reload:
  "card_grandTotal (numbers_of (object_of
      (example_quote ''a'' ''QT-1'' [example_item ''1'' (Fin 1) PInf] (Fin 0) (Fin 18)))) = PInf \<and>
   card_grandTotal (numbers_of (json_quotation (object_of
      (example_quote ''a'' ''QT-1'' [example_item ''1'' (Fin 1) PInf] (Fin 0) (Fin 18))))) = Fin 0"
proof -
  have "\<lfloor>(1::rat) / 2\<rfloor> = 0"
    by (rule floor_unique) simp_all
  then show ?thesis
    by (simp add: card_grandTotal_def card_totalAfterDiscount_def card_grossTotal_def
      numbers_of_def json_quotation_def object_of_def map_quotation_def map_line_item_def
      example_quote_def example_item_def fsub_def signed_inf_def rnd_def)
qed

lemma filter_notin_image:
  "f x \<notin> f ` set xs \<Longrightarrow> filter (\<lambda>q. f q \<noteq> f x) xs = xs"
  by (induction xs) auto

text \<open>
  C9. A confirmed delete, when the storage accepts the write, leaves in the application
  the records whose identifier differs from the given one, in their order, and none of
  the others, and the store holds the text of that collection; when the identifiers of
  the collection are distinct, deleting the identifier of one of its records removes that
  record alone. When the write throws, a confirmed delete removes nothing. A delete that
  is not confirmed changes nothing.
\<close>

theorem delete_quote:
  "(\<not> ls_throws b \<and> \<not> ls_full b \<longrightarrow>
      handleDeleteQuote True i (b, st) =
        (b\<lparr>ls_tyreQuotes := JsonText (map json_quotation (filter (\<lambda>q. id_quote q \<noteq> i) (quotes st)))\<rparr>,
         st\<lparr>quotes := filter (\<lambda>q. id_quote q \<noteq> i) (quotes st)\<rparr>) \<and>
      (\<forall>q. q \<in> set (quotes (snd (handleDeleteQuote True i (b, st)))) \<longleftrightarrow>
           q \<in> set (quotes st) \<and> id_quote q \<noteq> i) \<and>
      (id_quote x \<noteq> i \<and> quotes st = pre @ x # post \<longrightarrow>
         quotes (snd (handleDeleteQuote True i (b, st))) =
           filter (\<lambda>q. id_quote q \<noteq> i) pre @ x # filter (\<lambda>q. id_quote q \<noteq> i) post) \<and>
      (distinct (map id_quote (quotes st)) \<and> quotes st = pre @ x # post \<longrightarrow>
         quotes (snd (handleDeleteQuote True (id_quote x) (b, st))) = pre @ post)) \<and>
   (ls_throws b \<or> ls_full b \<longrightarrow> handleDeleteQuote True i (b, st) = (b, st)) \<and>
   handleDeleteQuote False i (b, st) = (b, st)"
  by (auto simp: handleDeleteQuote_def saveQuotesToLocalStorage_def filter_notin_image)

theorem delete_quote_witness:
  "distinct (map id_quote (quotes stored_three)) \<and>
   handleDeleteQuote True ''b'' (example_browser NoItem None, stored_three)
   = ((example_browser NoItem None)
        \<lparr>ls_tyreQuotes := JsonText [object_of (example_quote ''a'' ''QT-1'' [] (Fin 0) (Fin 18)),
                              object_of (example_quote ''c'' ''QT-3'' [] (Fin 0) (Fin 18))]\<rparr>,
      initial_app\<lparr>quotes := [object_of (example_quote ''a'' ''QT-1'' [] (Fin 0) (Fin 18)),
                              object_of (example_quote ''c'' ''QT-3'' [] (Fin 0) (Fin 18))]\<rparr>) \<and>
   handleDeleteQuote True ''b'' ((example_browser NoItem None)\<lparr>ls_throws := True\<rparr>, stored_three)
   = ((example_browser NoItem None)\<lparr>ls_throws := True\<rparr>, stored_three)"
  using
    delete_quote [where pre = "[object_of (example_quote ''a'' ''QT-1'' [] (Fin 0) (Fin 18))]"
      and x = "object_of (example_quote ''b'' ''QT-2'' [] (Fin 0) (Fin 18))"
      and post = "[object_of (example_quote ''c'' ''QT-3'' [] (Fin 0) (Fin 18))]"
      and i = "''b''"
      and b = "example_browser NoItem None" and st = stored_three]
    delete_quote [where i = "''b''"
      and b = "(example_browser NoItem None)\<lparr>ls_throws := True\<rparr>" and st = stored_three]
  by (simp add: stored_three_def example_browser_def example_quote_def object_of_def
      json_quotation_def map_quotation_def initial_app_def)

text \<open>
  With a local storage whose \<^verbatim>\<open>setItem\<close> throws, a confirmed delete of the identifier \<^verbatim>\<open>b\<close>
  leaves the record \<^verbatim>\<open>b\<close> in the collection, and the store as it was.
\<close>

theorem delete_quote_not_applied:
  "quotes (snd (handleDeleteQuote True ''b''
       ((example_browser NoItem None)\<lparr>ls_full := True\<rparr>, stored_three)))
     = [object_of (example_quote ''a'' ''QT-1'' [] (Fin 0) (Fin 18)),
        object_of (example_quote ''b'' ''QT-2'' [] (Fin 0) (Fin 18)),
        object_of (example_quote ''c'' ''QT-3'' [] (Fin 0) (Fin 18))] \<and>
   ls_tyreQuotes (fst (handleDeleteQuote True ''b''
       ((example_browser NoItem None)\<lparr>ls_full := True\<rparr>, stored_three)))
     = NoItem"
  by (simp add: handleDeleteQuote_def saveQuotesToLocalStorage_def stored_three_def
      example_browser_def)

section \<open>The three computations of the totals\<close>

text \<open>
  C6. The totals are a function of the line items, the discount and the tax rate of the
  quotation and of nothing else; the totals of the edit form and of the preview are equal
  field by field, and the grand total of the card equals theirs.
\<close>

theorem totals_agree:
  "form_totals quote = preview_totals quote \<and>
   grandTotal_of (form_totals quote) = card_grandTotal quote \<and>
   (lineItems q1 = lineItems q2 \<and> discount q1 = discount q2 \<and> taxRate q1 = taxRate q2 \<longrightarrow>
      form_totals q1 = form_totals q2 \<and> preview_totals q1 = preview_totals q2 \<and>
      card_grandTotal q1 = card_grandTotal q2)"
  by (simp add: form_totals_def preview_totals_def subtotal_def preview_subtotal_def
      taxDivisor_def preview_taxDivisor_def grossTotal_def preview_grossTotal_def
      card_grossTotal_def totalTax_def preview_totalTax_def totalAfterDiscount_def
      preview_totalAfterDiscount_def card_totalAfterDiscount_def grandTotal_def
      preview_grandTotal_def card_grandTotal_def roundOff_def preview_roundOff_def)

theorem totals_agree_witness:
  "form_totals (example_quote ''a'' ''QT-1'' [example_item ''i'' (Fin 4) (Fin 2500)] (Fin 0) (Fin 18))
   = preview_totals (example_quote ''a'' ''QT-1'' [example_item ''i'' (Fin 4) (Fin 2500)] (Fin 0) (Fin 18)) \<and>
   grandTotal_of (form_totals (example_quote ''a'' ''QT-1'' [example_item ''i'' (Fin 4) (Fin 2500)] (Fin 0) (Fin 18)))
   = card_grandTotal (example_quote ''a'' ''QT-1'' [example_item ''i'' (Fin 4) (Fin 2500)] (Fin 0) (Fin 18)) \<and>
   form_totals (example_quote ''a'' ''QT-1'' [example_item ''i'' (Fin 4) (Fin 2500)] (Fin 0) (Fin 18))
   = form_totals (example_quote ''b'' ''QT-2'' [example_item ''i'' (Fin 4) (Fin 2500)] (Fin 0) (Fin 18))"
proof -
  let ?a = "example_quote ''a'' ''QT-1'' [example_item ''i'' (Fin 4) (Fin 2500)] (Fin 0) (Fin 18)"
  let ?b = "example_quote ''b'' ''QT-2'' [example_item ''i'' (Fin 4) (Fin 2500)] (Fin 0) (Fin 18)"
  have same: "lineItems ?a = lineItems ?b \<and> discount ?a = discount ?b \<and> taxRate ?a = taxRate ?b"
    by (simp add: example_quote_def)
  from totals_agree [where quote = ?a and ?q1.0 = ?a and ?q2.0 = ?b] same
  show ?thesis by blast
qed

section \<open>The quote number\<close>

lemma toString_nat_1: "n < 10 \<Longrightarrow> toString_nat n = [digit_char n]"
  by (simp add: toString_nat.simps)

lemma toString_nat_step: "10 \<le> n \<Longrightarrow> toString_nat n = toString_nat (n div 10) @ [digit_char (n mod 10)]"
  by (subst toString_nat.simps) simp

lemma toString_nat_2: "10 \<le> n \<Longrightarrow> n < 100 \<Longrightarrow> toString_nat n = [digit_char (n div 10), digit_char (n mod 10)]"
  by (simp add: toString_nat_step toString_nat_1)

lemma toString_nat_3: "100 \<le> n \<Longrightarrow> n < 1000 \<Longrightarrow>
  toString_nat n = [digit_char (n div 100), digit_char (n div 10 mod 10), digit_char (n mod 10)]"
proof -
  assume n: "100 \<le> n" "n < 1000"
  have "10 \<le> n div 10" "n div 10 < 100" using n by auto
  then have "toString_nat (n div 10) = [digit_char (n div 10 div 10), digit_char (n div 10 mod 10)]"
    by (rule toString_nat_2)
  moreover have "n div 10 div 10 = n div 100" by (simp add: div_mult2_eq [symmetric])
  ultimately show ?thesis using n by (simp add: toString_nat_step)
qed

lemma toString_nat_4: "1000 \<le> n \<Longrightarrow> n < 10000 \<Longrightarrow>
  toString_nat n = [digit_char (n div 1000), digit_char (n div 100 mod 10), digit_char (n div 10 mod 10), digit_char (n mod 10)]"
proof -
  assume n: "1000 \<le> n" "n < 10000"
  have "100 \<le> n div 10" "n div 10 < 1000" using n by auto
  then have "toString_nat (n div 10) =
      [digit_char (n div 10 div 100), digit_char (n div 10 div 10 mod 10), digit_char (n div 10 mod 10)]"
    by (rule toString_nat_3)
  moreover have "n div 10 div 100 = n div 1000" "n div 10 div 10 = n div 100"
    by (simp_all add: div_mult2_eq [symmetric])
  ultimately show ?thesis using n by (simp add: toString_nat_step)
qed

lemma digit_char_0: "digit_char 0 = CHR ''0''"
  by (simp add: digit_char_def)

lemma replicate_123:
  "replicate (Suc 0) c = [c]" "replicate 2 c = [c, c]" "replicate 3 c = [c, c, c]"
  by (simp_all add: numeral_2_eq_2 numeral_3_eq_3)

lemma pad2: "n < 100 \<Longrightarrow> padStart 2 CHR ''0'' (toString_nat n) = two_digits n"
proof (cases "n < 10")
  case True
  then have "toString_nat n = [digit_char n]" by (rule toString_nat_1)
  moreover have "n div 10 mod 10 = 0" "n mod 10 = n" using True by simp_all
  ultimately show ?thesis
    by (simp add: padStart_def two_digits_def digit_char_0 replicate_123)
next
  case False
  assume "n < 100"
  with False have "toString_nat n = [digit_char (n div 10), digit_char (n mod 10)]"
    by (simp add: toString_nat_2)
  moreover have "n div 10 mod 10 = n div 10" using \<open>n < 100\<close> by simp
  ultimately show ?thesis
    by (simp add: padStart_def two_digits_def)
qed

lemma pad4: "n < 10000 \<Longrightarrow> padStart 4 CHR ''0'' (toString_nat n) = four_digits n"
proof -
  assume n: "n < 10000"
  consider "n < 10" | "10 \<le> n" "n < 100" | "100 \<le> n" "n < 1000" | "1000 \<le> n"
    by linarith
  then show ?thesis
  proof cases
    case 1
    then have "toString_nat n = [digit_char n]" by (rule toString_nat_1)
    moreover have "n div 1000 mod 10 = 0" "n div 100 mod 10 = 0" "n div 10 mod 10 = 0" "n mod 10 = n"
      using 1 by simp_all
    moreover have "(4::nat) - Suc 0 = 3" by simp
    ultimately show ?thesis
      by (simp add: padStart_def four_digits_def digit_char_0 replicate_123)
  next
    case 2
    then have "toString_nat n = [digit_char (n div 10), digit_char (n mod 10)]"
      by (simp add: toString_nat_2)
    moreover have "n div 1000 mod 10 = 0" "n div 100 mod 10 = 0" "n div 10 mod 10 = n div 10"
      using 2 by simp_all
    moreover have "(4::nat) - Suc (Suc 0) = 2" by simp
    ultimately show ?thesis
      by (simp add: padStart_def four_digits_def digit_char_0 replicate_123)
  next
    case 3
    then have "toString_nat n = [digit_char (n div 100), digit_char (n div 10 mod 10), digit_char (n mod 10)]"
      by (simp add: toString_nat_3)
    moreover have "n div 1000 mod 10 = 0" "n div 100 mod 10 = n div 100"
      using 3 by simp_all
    moreover have "(4::nat) - Suc (Suc (Suc 0)) = Suc 0" by simp
    ultimately show ?thesis
      by (simp add: padStart_def four_digits_def digit_char_0 replicate_123)
  next
    case 4
    then have "toString_nat n = [digit_char (n div 1000), digit_char (n div 100 mod 10),
        digit_char (n div 10 mod 10), digit_char (n mod 10)]"
      using n by (simp add: toString_nat_4)
    moreover have "n div 1000 mod 10 = n div 1000"
      using n by simp
    ultimately show ?thesis
      by (simp add: padStart_def four_digits_def)
  qed
qed

lemma toString_nat_snoc:
  "\<exists>xs. toString_nat n = xs @ [digit_char (n mod 10)]"
proof (cases "n < 10")
  case True
  then have "toString_nat n = [] @ [digit_char (n mod 10)]" by (simp add: toString_nat_1)
  then show ?thesis by blast
next
  case False
  then have "toString_nat n = toString_nat (n div 10) @ [digit_char (n mod 10)]"
    by (simp add: toString_nat_step)
  then show ?thesis by blast
qed

lemma slice_year: "10 \<le> y \<Longrightarrow> slice_last 2 (toString_nat y) = two_digits y"
proof -
  assume y: "10 \<le> y"
  obtain xs where xs: "toString_nat (y div 10) = xs @ [digit_char (y div 10 mod 10)]"
    using toString_nat_snoc [of "y div 10"] by blast
  show ?thesis
    by (simp add: toString_nat_step [OF y] xs slice_last_def two_digits_def)
qed

lemma datePrefix_format:
  assumes "getDate d < 100" "getMonth d + 1 < 100" "10 \<le> getFullYear d"
  shows "datePrefix d = ''QT-'' @ two_digits (getDate d) @ two_digits (getMonth d + 1)
                     @ two_digits (getFullYear d)"
  using assms by (simp add: datePrefix_def pad2 slice_year)

text \<open>
  C2. The quote number is the date prefix, a hyphen, and one more than the number of
  existing quote numbers that start with the prefix, padded with zeros to four
  characters. For a day and a month number below 100 and a year of two digits or more
  the prefix is \<open>QT-\<close> and the two digits of the day, of the month (counted from 1) and
  of the year; for a serial below 10000 the padded serial is its four decimal digits,
  and the result is the one the specification describes. With no quote number of the
  day the serial is 0001, with exactly one it is 0002.
\<close>

theorem generateQuoteNumber_format:
  "generateQuoteNumber d qs =
     datePrefix d @ ''-'' @ padStart 4 CHR ''0'' (toString_nat (length (todayQuotes d qs) + 1)) \<and>
   (getDate d < 100 \<and> getMonth d + 1 < 100 \<and> 10 \<le> getFullYear d \<longrightarrow>
      datePrefix d = ''QT-'' @ two_digits (getDate d) @ two_digits (getMonth d + 1)
                       @ two_digits (getFullYear d)) \<and>
   (length (todayQuotes d qs) + 1 < 10000 \<longrightarrow>
      padStart 4 CHR ''0'' (toString_nat (length (todayQuotes d qs) + 1)) =
        four_digits (length (todayQuotes d qs) + 1)) \<and>
   (getDate d < 100 \<and> getMonth d + 1 < 100 \<and> 10 \<le> getFullYear d \<and>
    length (todayQuotes d qs) + 1 < 10000 \<longrightarrow>
      generateQuoteNumber d qs = spec_quoteNumber d qs) \<and>
   (todayQuotes d qs = [] \<longrightarrow> generateQuoteNumber d qs = datePrefix d @ ''-0001'') \<and>
   (length (todayQuotes d qs) = 1 \<longrightarrow> generateQuoteNumber d qs = datePrefix d @ ''-0002'')"
proof -
  let ?c = "length (todayQuotes d qs)"
  have g: "generateQuoteNumber d qs = datePrefix d @ ''-'' @ padStart 4 CHR ''0'' (toString_nat (?c + 1))"
    by (simp add: generateQuoteNumber_def)
  have p: "datePrefix d = ''QT-'' @ two_digits (getDate d) @ two_digits (getMonth d + 1)
                     @ two_digits (getFullYear d)"
    if "getDate d < 100 \<and> getMonth d + 1 < 100 \<and> 10 \<le> getFullYear d"
    using that by (simp add: datePrefix_format)
  have s: "generateQuoteNumber d qs = spec_quoteNumber d qs"
    if "getDate d < 100 \<and> getMonth d + 1 < 100 \<and> 10 \<le> getFullYear d \<and> ?c + 1 < 10000"
  proof -
    have q: "datePrefix d = ''QT-'' @ two_digits (getDate d) @ two_digits (getMonth d + 1)
                     @ two_digits (getFullYear d)"
      using that p by blast
    have "spec_quoteNumber d qs = datePrefix d @ ''-'' @ four_digits (?c + 1)"
      unfolding spec_quoteNumber_def Let_def q [symmetric] todayQuotes_def ..
    then show ?thesis using that by (simp add: g pad4)
  qed
  have f1: "four_digits (Suc 0) = ''0001''" "four_digits (Suc (Suc 0)) = ''0002''"
    by (simp_all add: four_digits_def digit_char_def)
  have "padStart 4 CHR ''0'' (toString_nat (Suc 0)) = ''0001''"
    "padStart 4 CHR ''0'' (toString_nat (Suc (Suc 0))) = ''0002''"
    using pad4 [of "Suc 0"] pad4 [of "Suc (Suc 0)"] by (simp_all add: f1)
  then have c0: "todayQuotes d qs = [] \<Longrightarrow> generateQuoteNumber d qs = datePrefix d @ ''-0001''"
    and c1: "?c = 1 \<Longrightarrow> generateQuoteNumber d qs = datePrefix d @ ''-0002''"
    by (simp_all add: g)
  from g p s c0 c1 pad4 [of "?c + 1"] show ?thesis by blast
qed

theorem generateQuoteNumber_format_witness:
  "datePrefix \<lparr>getDate = 31, getMonth = 0, getFullYear = 2025\<rparr> = ''QT-310125'' \<and>
   generateQuoteNumber \<lparr>getDate = 31, getMonth = 0, getFullYear = 2025\<rparr> [] = ''QT-310125-0001'' \<and>
   generateQuoteNumber \<lparr>getDate = 31, getMonth = 0, getFullYear = 2025\<rparr>
     [example_quote ''a'' ''QT-310125-0001'' [] (Fin 0) (Fin 18),
      example_quote ''b'' ''QT-300125-0007'' [] (Fin 0) (Fin 18)] = ''QT-310125-0002'' \<and>
   spec_quoteNumber \<lparr>getDate = 31, getMonth = 0, getFullYear = 2025\<rparr>
     [example_quote ''a'' ''QT-310125-0001'' [] (Fin 0) (Fin 18),
      example_quote ''b'' ''QT-300125-0007'' [] (Fin 0) (Fin 18)] = ''QT-310125-0002''"
proof -
  let ?d = "\<lparr>getDate = 31, getMonth = 0, getFullYear = 2025\<rparr>"
  let ?qs = "[example_quote ''a'' ''QT-310125-0001'' [] (Fin 0) (Fin 18),
      example_quote ''b'' ''QT-300125-0007'' [] (Fin 0) (Fin 18)]"
  have d: "getDate ?d < 100 \<and> getMonth ?d + 1 < 100 \<and> 10 \<le> getFullYear ?d"
    by simp
  have "datePrefix ?d = ''QT-'' @ two_digits (getDate ?d) @ two_digits (getMonth ?d + 1)
                       @ two_digits (getFullYear ?d)"
    using generateQuoteNumber_format [of ?d "[]"] d by blast
  then have p: "datePrefix ?d = ''QT-310125''"
    by (simp add: two_digits_def digit_char_def)
  have t0: "todayQuotes ?d [] = []"
    by (simp add: todayQuotes_def)
  have t1: "length (todayQuotes ?d ?qs) = 1"
    by (simp add: todayQuotes_def p startsWith_def example_quote_def)
  have "generateQuoteNumber ?d [] = datePrefix ?d @ ''-0001''"
    using generateQuoteNumber_format [of ?d "[]"] t0 by blast
  then have g0: "generateQuoteNumber ?d [] = ''QT-310125-0001''"
    by (simp add: p)
  have "generateQuoteNumber ?d ?qs = datePrefix ?d @ ''-0002''"
    using generateQuoteNumber_format [of ?d ?qs] t1 by blast
  then have g1: "generateQuoteNumber ?d ?qs = ''QT-310125-0002''"
    by (simp add: p)
  have "length (todayQuotes ?d ?qs) + 1 < 10000"
    using t1 by simp
  then have "generateQuoteNumber ?d ?qs = spec_quoteNumber ?d ?qs"
    using generateQuoteNumber_format [of ?d ?qs] d by blast
  with p g0 g1 show ?thesis by simp
qed

section \<open>Rounding to binary64\<close>

text \<open>
  The facts about \<open>rnd\<close> that the claims on the totals rest on: a rational \<open>m * 2^e\<close>
  with \<open>|m| < 2^53\<close>, \<open>e \<ge> -1074\<close> and magnitude below \<open>2^1024\<close> is left unchanged, every
  finite result of \<open>rnd\<close> has this form, \<open>rnd\<close> does not carry a value past a binary64
  value, and its error is at most half a quantum.
\<close>

subsection \<open>Powers of two, binary logarithm, rounding to an integer\<close>

lemma pw_pos [simp]: "0 < (2::rat) powi e"
  by simp

lemma pw_add: "(2::rat) powi (a + b) = 2 powi a * 2 powi b"
  by (simp add: power_int_add)

lemma pw_diff: "(2::rat) powi (a - b) = 2 powi a / 2 powi b"
  by (simp add: power_int_diff)

lemma pw_mono: "a \<le> b \<Longrightarrow> (2::rat) powi a \<le> 2 powi b"
  by (rule power_int_increasing) simp_all

lemma pw_strict_mono: "a < b \<Longrightarrow> (2::rat) powi a < 2 powi b"
  by (rule power_int_strict_increasing) simp_all

lemma pw_less_cancel: "(2::rat) powi a < 2 powi b \<Longrightarrow> a < b"
  using pw_mono [of b a] by (cases "a < b") auto

lemma pw_nonneg_int: "0 \<le> e \<Longrightarrow> (2::rat) powi e = of_int (2 ^ nat e)"
  by (simp add: power_int_nonneg_exp)

lemma bitlen_bounds: "0 < n \<Longrightarrow> 2 ^ (bitlen n - 1) \<le> n \<and> n < 2 ^ bitlen n"
proof (induction n rule: bitlen.induct)
  case (1 n)
  show ?case
  proof (cases "n div 2 = 0")
    case True
    with 1(2) have "n = 1" by presburger
    then show ?thesis by (simp add: bitlen.simps [of "Suc 0"] bitlen.simps [of 0])
  next
    case False
    then have ih: "2 ^ (bitlen (n div 2) - 1) \<le> n div 2 \<and> n div 2 < 2 ^ bitlen (n div 2)"
      using 1 by simp
    have pos: "0 < bitlen (n div 2)"
      using False by (simp add: bitlen.simps [of "n div 2"])
    have b: "bitlen n = Suc (bitlen (n div 2))"
      using 1(2) by (simp add: bitlen.simps [of n])
    have "(2::nat) ^ (bitlen n - 1) = 2 * 2 ^ (bitlen (n div 2) - 1)"
      using pos b by (cases "bitlen (n div 2)") simp_all
    moreover have "(2::nat) ^ bitlen n = 2 * 2 ^ bitlen (n div 2)"
      using b by simp
    moreover have "2 * (n div 2) \<le> n" "n < 2 * (n div 2) + 2"
      by simp_all
    ultimately show ?thesis using ih by linarith
  qed
qed

lemma bitlen_pos: "0 < n \<Longrightarrow> 0 < bitlen n"
  by (simp add: bitlen.simps [of n])

lemma ilog2_bounds:
  assumes "0 < x"
  shows "2 powi ilog2 x \<le> x \<and> x < 2 powi (ilog2 x + 1)"
proof (cases "1 \<le> x")
  case True
  define n where "n = nat \<lfloor>x\<rfloor>"
  have fl: "1 \<le> \<lfloor>x\<rfloor>" using True by simp
  then have n: "0 < n" "int n = \<lfloor>x\<rfloor>" by (simp_all add: n_def)
  have bb: "2 ^ (bitlen n - 1) \<le> n \<and> n < 2 ^ bitlen n"
    using n(1) by (rule bitlen_bounds)
  have bp: "0 < bitlen n" using n(1) by (rule bitlen_pos)
  have il: "ilog2 x = int (bitlen n - 1)"
    using True bp by (simp add: ilog2_def n_def of_nat_diff)
  have nx: "(of_nat n :: rat) = of_int \<lfloor>x\<rfloor>"
    using n(2) by (metis of_int_of_nat_eq)
  have lo: "(of_nat n :: rat) \<le> x"
    unfolding nx by linarith
  have hi: "x < of_nat n + 1"
    unfolding nx by linarith
  have "(2::rat) ^ (bitlen n - 1) \<le> of_nat n"
    using bb by (metis of_nat_le_iff of_nat_numeral of_nat_power)
  moreover have "(of_nat n :: rat) + 1 \<le> 2 ^ bitlen n"
  proof -
    have "n + 1 \<le> 2 ^ bitlen n" using bb by simp
    then have "(of_nat (n + 1) :: rat) \<le> of_nat (2 ^ bitlen n)" by (rule of_nat_mono)
    then show ?thesis by simp
  qed
  moreover have "(2::rat) powi ilog2 x = 2 ^ (bitlen n - 1)"
    unfolding il by (rule power_int_of_nat)
  moreover have "ilog2 x + 1 = int (bitlen n)" using il bp by simp
  then have "(2::rat) powi (ilog2 x + 1) = 2 ^ bitlen n"
    by (simp only: power_int_of_nat)
  ultimately show ?thesis using lo hi by linarith
next
  case False
  then have x1: "x < 1" by simp
  define k where "k = \<lceil>1 / x\<rceil>"
  have inv: "1 < 1 / x" using assms x1 by simp
  then have k2: "2 \<le> k" unfolding k_def by linarith
  define n where "n = nat (k - 1)"
  have n: "0 < n" "int n = k - 1" using k2 by (simp_all add: n_def)
  have bb: "2 ^ (bitlen n - 1) \<le> n \<and> n < 2 ^ bitlen n"
    using n(1) by (rule bitlen_bounds)
  have bp: "0 < bitlen n" using n(1) by (rule bitlen_pos)
  have il: "ilog2 x = - int (bitlen n)"
    using False by (simp add: ilog2_def n_def k_def)
  have k_hi: "1 / x \<le> of_int k" unfolding k_def by simp
  have k_lo: "of_int k - 1 < 1 / x" unfolding k_def by linarith
  have "(2::rat) ^ (bitlen n - 1) \<le> of_nat n"
    using bb by (metis of_nat_le_iff of_nat_numeral of_nat_power)
  also have "(of_nat n :: rat) = of_int k - 1"
    using n(2) by (metis of_int_1 of_int_diff of_int_of_nat_eq)
  finally have lo: "(2::rat) ^ (bitlen n - 1) < 1 / x" using k_lo by simp
  have "n + 1 \<le> 2 ^ bitlen n" using bb by simp
  then have "(of_nat (n + 1) :: rat) \<le> of_nat (2 ^ bitlen n)" by (rule of_nat_mono)
  then have "(of_nat n :: rat) + 1 \<le> 2 ^ bitlen n" by simp
  then have "of_int k \<le> (2::rat) ^ bitlen n"
    using \<open>(of_nat n :: rat) = of_int k - 1\<close> by linarith
  then have hi: "1 / x \<le> (2::rat) ^ bitlen n" using k_hi by linarith
  have a: "2 powi (- int (bitlen n)) \<le> x"
  proof -
    have "1 / (2::rat) ^ bitlen n \<le> x"
      using hi assms by (simp add: field_simps)
    moreover have "(2::rat) powi (- int (bitlen n)) = 1 / 2 ^ bitlen n"
      by (simp only: power_int_minus_divide power_int_of_nat)
    ultimately show ?thesis by linarith
  qed
  have b: "x < 2 powi (- int (bitlen n) + 1)"
  proof -
    have "x < 1 / (2::rat) ^ (bitlen n - 1)"
      using lo assms by (simp add: field_simps)
    moreover have eq: "- int (bitlen n) + 1 = - int (bitlen n - 1)" using bp by simp
    have "(2::rat) powi (- int (bitlen n) + 1) = 1 / 2 ^ (bitlen n - 1)"
      unfolding eq by (simp only: power_int_minus_divide power_int_of_nat)
    ultimately show ?thesis by linarith
  qed
  show ?thesis using a b il by simp
qed

lemma ilog2_unique:
  assumes "0 < x" "2 powi e \<le> x" "x < 2 powi (e + 1)"
  shows "ilog2 x = e"
proof -
  have b: "2 powi ilog2 x \<le> x \<and> x < 2 powi (ilog2 x + 1)"
    using assms(1) by (rule ilog2_bounds)
  have "(2::rat) powi ilog2 x < 2 powi (e + 1)" using b assms(3) by linarith
  then have "ilog2 x < e + 1" by (rule pw_less_cancel)
  moreover have "(2::rat) powi e < 2 powi (ilog2 x + 1)" using b assms(2) by linarith
  then have "e < ilog2 x + 1" by (rule pw_less_cancel)
  ultimately show ?thesis by simp
qed

lemma ilog2_mono:
  assumes "0 < x" "x \<le> y"
  shows "ilog2 x \<le> ilog2 y"
proof -
  have "2 powi ilog2 x \<le> x" using ilog2_bounds [OF assms(1)] by simp
  moreover have "y < 2 powi (ilog2 y + 1)" using ilog2_bounds [of y] assms by simp
  ultimately have "(2::rat) powi ilog2 x < 2 powi (ilog2 y + 1)" using assms(2) by linarith
  then have "ilog2 x < ilog2 y + 1" by (rule pw_less_cancel)
  then show ?thesis by simp
qed

lemma rhe_of_int [simp]: "rhe (of_int k) = k"
  by (simp add: rhe_def)

lemma rhe_cases: "rhe z = \<lfloor>z\<rfloor> \<or> rhe z = \<lfloor>z\<rfloor> + 1"
  by (simp add: rhe_def Let_def)

lemma rhe_error: "\<bar>of_int (rhe z) - z\<bar> \<le> 1 / 2"
proof -
  have "of_int \<lfloor>z\<rfloor> \<le> z" "z < of_int \<lfloor>z\<rfloor> + 1" by linarith+
  then show ?thesis
    by (auto simp: rhe_def Let_def abs_le_iff)
qed

lemma rhe_ge: "of_int k \<le> z \<Longrightarrow> k \<le> rhe z"
proof -
  assume "of_int k \<le> z"
  then have "k \<le> \<lfloor>z\<rfloor>" by (simp add: le_floor_iff)
  then show ?thesis using rhe_cases [of z] by auto
qed

lemma rhe_le: "z \<le> of_int k \<Longrightarrow> rhe z \<le> k"
proof (cases "z = of_int k")
  case True
  then show ?thesis by simp
next
  case False
  assume "z \<le> of_int k"
  with False have "z < of_int k" by simp
  then have "\<lfloor>z\<rfloor> < k" by (simp add: floor_less_iff)
  then show ?thesis using rhe_cases [of z] by auto
qed


subsection \<open>The values that rounding leaves unchanged\<close>

lemma quantum_exp_ge: "- 1074 \<le> quantum_exp x"
  by (simp add: quantum_exp_def)

lemma quantum_exp_ge_ilog2: "ilog2 \<bar>x\<bar> - 52 \<le> quantum_exp x"
  by (simp add: quantum_exp_def)

lemma rnd_nonzero:
  assumes "x \<noteq> 0"
  shows "rnd x =
    (if (2::rat) ^ 1024 \<le> \<bar>of_int (rhe (x / 2 powi quantum_exp x)) * 2 powi quantum_exp x\<bar>
     then (if 0 < x then PInf else NInf)
     else Fin (of_int (rhe (x / 2 powi quantum_exp x)) * 2 powi quantum_exp x))"
  using assms by (simp add: rnd_def Let_def)

lemma rnd_zero [simp]: "rnd 0 = Fin 0"
  by (simp add: rnd_def)

lemma abs_lt_pow:
  assumes "x \<noteq> 0"
  shows "\<bar>x\<bar> < 2 powi (ilog2 \<bar>x\<bar> + 1)" and "2 powi ilog2 \<bar>x\<bar> \<le> \<bar>x\<bar>"
  using ilog2_bounds [of "\<bar>x\<bar>"] assms by simp_all

lemma rnd_exact:
  assumes x: "x = of_int m * 2 powi e" and m: "\<bar>m\<bar> < 2 ^ 53" and e: "- 1074 \<le> e"
    and fin: "\<bar>x\<bar> < 2 ^ 1024"
  shows "rnd x = Fin x"
proof (cases "x = 0")
  case True
  then show ?thesis by simp
next
  case False
  define p where "p = quantum_exp x"
  have "\<bar>x\<bar> = of_int \<bar>m\<bar> * 2 powi e"
    unfolding x by (simp add: abs_mult)
  also have "\<dots> < of_int (2 ^ 53) * 2 powi e"
    using m by (intro mult_strict_right_mono) (simp_all add: of_int_less_iff del: of_int_power)
  also have "\<dots> = 2 powi (53 + e)"
    by (simp add: pw_add)
  finally have "\<bar>x\<bar> < 2 powi (53 + e)" .
  then have "(2::rat) powi ilog2 \<bar>x\<bar> < 2 powi (53 + e)"
    using abs_lt_pow(2) [OF False] by linarith
  then have "ilog2 \<bar>x\<bar> < 53 + e" by (rule pw_less_cancel)
  then have pe: "p \<le> e"
    using e by (simp add: p_def quantum_exp_def)
  have "x / 2 powi p = of_int m * (2 powi e / 2 powi p)"
    unfolding x by simp
  also have "2 powi e / 2 powi p = (2::rat) powi (e - p)"
    by (simp add: pw_diff)
  also have "\<dots> = of_int (2 ^ nat (e - p))"
    using pe by (simp add: pw_nonneg_int)
  finally have q: "x / 2 powi p = of_int (m * 2 ^ nat (e - p))"
    by simp
  have "of_int (rhe (x / 2 powi p)) * 2 powi p = x / 2 powi p * 2 powi p"
    unfolding q rhe_of_int ..
  also have "\<dots> = x" by simp
  finally have y: "of_int (rhe (x / 2 powi p)) * 2 powi p = x" .
  show ?thesis
    using fin by (simp add: rnd_nonzero [OF False] y [unfolded p_def])
qed

lemma rhe_quantum_bound:
  assumes "x \<noteq> 0"
  shows "\<bar>rhe (x / 2 powi quantum_exp x)\<bar> \<le> 2 ^ 53"
proof -
  define p where "p = quantum_exp x"
  have "ilog2 \<bar>x\<bar> + 1 - p \<le> 53"
    using quantum_exp_ge_ilog2 [of x] by (simp add: p_def)
  then have "(2::rat) powi (ilog2 \<bar>x\<bar> + 1 - p) \<le> 2 powi 53"
    by (rule pw_mono)
  moreover have "\<bar>x\<bar> / 2 powi p < 2 powi (ilog2 \<bar>x\<bar> + 1) / 2 powi p"
    using abs_lt_pow(1) [OF assms] by (simp add: divide_strict_right_mono)
  ultimately have "\<bar>x\<bar> / 2 powi p < 2 powi 53"
    by (simp add: pw_diff)
  moreover have "(2::rat) powi 53 = of_int (2 ^ 53)"
    by simp
  moreover have "\<bar>x / 2 powi p\<bar> = \<bar>x\<bar> / 2 powi p"
    by (simp add: abs_divide)
  ultimately have b: "\<bar>x / 2 powi p\<bar> < of_int (2 ^ 53)"
    by (simp only:)
  have "x / 2 powi p \<le> of_int (2 ^ 53)"
    using b by linarith
  then have "rhe (x / 2 powi p) \<le> 2 ^ 53"
    by (rule rhe_le)
  moreover have "of_int (- (2 ^ 53)) \<le> x / 2 powi p"
    using b by (simp only: of_int_minus)
  then have "- (2 ^ 53) \<le> rhe (x / 2 powi p)"
    by (rule rhe_ge)
  ultimately show ?thesis
    by (simp add: p_def abs_le_iff)
qed

lemma rnd_repr:
  assumes "rnd x = Fin y"
  shows "\<exists>m e. y = of_int m * 2 powi e \<and> \<bar>m\<bar> < 2 ^ 53 \<and> - 1074 \<le> e \<and> \<bar>y\<bar> < 2 ^ 1024"
proof (cases "x = 0")
  case True
  with assms have "y = of_int 0 * 2 powi 0" by simp
  then show ?thesis by (intro exI [of _ 0]) simp
next
  case False
  define p where "p = quantum_exp x"
  define n where "n = rhe (x / 2 powi p)"
  have y: "y = of_int n * 2 powi p" and fin: "\<bar>y\<bar> < 2 ^ 1024"
    using assms by (auto simp: rnd_nonzero [OF False] p_def n_def split: if_splits)
  have n: "\<bar>n\<bar> \<le> 2 ^ 53"
    unfolding n_def p_def using False by (rule rhe_quantum_bound)
  have p: "- 1074 \<le> p" unfolding p_def by (rule quantum_exp_ge)
  show ?thesis
  proof (cases "\<bar>n\<bar> < 2 ^ 53")
    case True
    with y p fin show ?thesis by blast
  next
    case False
    with n have "\<bar>n\<bar> = 2 ^ 53" by simp
    then consider "n = 2 ^ 53" | "n = - (2 ^ 53)" by (auto simp: abs_if split: if_splits)
    then show ?thesis
    proof cases
      case 1
      have r: "y = of_int (2 ^ 52) * 2 powi (p + 1)"
        unfolding y 1 by (simp add: pw_add)
      have m: "\<bar>2 ^ 52 :: int\<bar> < 2 ^ 53" by simp
      have e: "- 1074 \<le> p + 1" using p by simp
      from r m e fin show ?thesis by blast
    next
      case 2
      have r: "y = of_int (- (2 ^ 52)) * 2 powi (p + 1)"
        unfolding y 2 by (simp add: pw_add)
      have m: "\<bar>- (2 ^ 52) :: int\<bar> < 2 ^ 53" by simp
      have e: "- 1074 \<le> p + 1" using p by simp
      from r m e fin show ?thesis by blast
    qed
  qed
qed

lemma rnd_is_double: "rnd x = Fin y \<Longrightarrow> is_double y"
  using rnd_repr [of x y] rnd_exact [of y] by (auto simp: is_double_def)

lemma is_double_repr:
  "is_double x \<Longrightarrow>
     \<exists>m e. x = of_int m * 2 powi e \<and> \<bar>m\<bar> < 2 ^ 53 \<and> - 1074 \<le> e \<and> \<bar>x\<bar> < 2 ^ 1024"
  unfolding is_double_def by (rule rnd_repr)

lemma is_doubleI:
  "x = of_int m * 2 powi e \<Longrightarrow> \<bar>m\<bar> < 2 ^ 53 \<Longrightarrow> - 1074 \<le> e \<Longrightarrow> \<bar>x\<bar> < 2 ^ 1024
     \<Longrightarrow> is_double x"
  unfolding is_double_def by (rule rnd_exact)

subsection \<open>Integers, negation and \<^verbatim>\<open>Math.round\<close>\<close>

lemma repr_quantum_le:
  assumes x: "x = of_int m * 2 powi e" and m: "\<bar>m\<bar> < 2 ^ 53" and e: "- 1074 \<le> e" and nz: "x \<noteq> 0"
  shows "quantum_exp x \<le> e"
proof -
  have "\<bar>x\<bar> = of_int \<bar>m\<bar> * 2 powi e"
    unfolding x by (simp add: abs_mult)
  also have "\<dots> < of_int (2 ^ 53) * 2 powi e"
    using m by (intro mult_strict_right_mono) (simp_all add: of_int_less_iff del: of_int_power)
  also have "\<dots> = 2 powi (53 + e)"
    by (simp add: pw_add)
  finally have "\<bar>x\<bar> < 2 powi (53 + e)" .
  then have "(2::rat) powi ilog2 \<bar>x\<bar> < 2 powi (53 + e)"
    using abs_lt_pow(2) [OF nz] by linarith
  then have "ilog2 \<bar>x\<bar> < 53 + e" by (rule pw_less_cancel)
  then show ?thesis
    using e by (simp add: quantum_exp_def)
qed

lemma big_bound: "(2::rat) ^ 53 < 2 ^ 1024"
  by (rule power_strict_increasing) simp_all

lemma is_double_0 [simp]: "is_double 0"
  by (simp add: is_double_def)

lemma is_double_of_int:
  assumes "\<bar>k\<bar> \<le> 2 ^ 53"
  shows "is_double (of_int k)"
proof -
  have "\<bar>of_int k :: rat\<bar> \<le> of_int (2 ^ 53)"
    using assms by (simp only: of_int_abs [symmetric] of_int_le_iff)
  then have fin: "\<bar>of_int k :: rat\<bar> < 2 ^ 1024"
    using big_bound by simp
  have "\<bar>k\<bar> < 2 ^ 53 \<or> k = 2 ^ 53 \<or> k = - (2 ^ 53)"
    using assms by linarith
  then consider "\<bar>k\<bar> < 2 ^ 53" | "k = 2 ^ 53" | "k = - (2 ^ 53)"
    by blast
  then show ?thesis
  proof cases
    case 1
    have r: "(of_int k :: rat) = of_int k * 2 powi 0" by simp
    have e: "- 1074 \<le> (0::int)" by simp
    from r 1 e fin show ?thesis by (rule is_doubleI)
  next
    case 2
    have r: "(of_int k :: rat) = of_int (2 ^ 52) * 2 powi 1" unfolding 2 by simp
    have m: "\<bar>2 ^ 52 :: int\<bar> < 2 ^ 53" by simp
    have e: "- 1074 \<le> (1::int)" by simp
    from r m e fin show ?thesis by (rule is_doubleI)
  next
    case 3
    have r: "(of_int k :: rat) = of_int (- (2 ^ 52)) * 2 powi 1" unfolding 3 by simp
    have m: "\<bar>- (2 ^ 52) :: int\<bar> < 2 ^ 53" by simp
    have e: "- 1074 \<le> (1::int)" by simp
    from r m e fin show ?thesis by (rule is_doubleI)
  qed
qed

lemma is_double_neg:
  assumes "is_double x"
  shows "is_double (- x)"
proof -
  obtain m e where r: "x = of_int m * 2 powi e" "\<bar>m\<bar> < 2 ^ 53" "- 1074 \<le> e" "\<bar>x\<bar> < 2 ^ 1024"
    using is_double_repr [OF assms] by blast
  have a: "- x = of_int (- m) * 2 powi e" unfolding r(1) by simp
  have b: "\<bar>- m\<bar> < 2 ^ 53" using r(2) by simp
  have c: "\<bar>- x\<bar> < 2 ^ 1024" using r(4) by simp
  from a b r(3) c show ?thesis by (rule is_doubleI)
qed

lemma floor_half_error: "\<bar>of_int \<lfloor>t + 1 / 2\<rfloor> - t\<bar> \<le> 1 / (2::rat)"
proof -
  have "of_int \<lfloor>t + 1 / 2\<rfloor> \<le> t + 1 / 2" "t + 1 / 2 < of_int \<lfloor>t + 1 / 2\<rfloor> + 1"
    by linarith+
  then show ?thesis unfolding abs_le_iff by linarith
qed

lemma floor_int_plus_half: "\<lfloor>(of_int T :: rat) + 1 / 2\<rfloor> = T"
  by (rule floor_unique) simp_all

lemma round_exact:
  assumes "is_double t"
  shows "is_double (of_int \<lfloor>t + 1 / 2\<rfloor>)" and "is_double (of_int \<lfloor>t + 1 / 2\<rfloor> - t)"
proof -
  define k where "k = \<lfloor>t + 1 / 2\<rfloor>"
  obtain m e where r: "t = of_int m * 2 powi e" "\<bar>m\<bar> < 2 ^ 53" "- 1074 \<le> e" "\<bar>t\<bar> < 2 ^ 1024"
    using is_double_repr [OF assms] by blast
  have err: "\<bar>of_int k - t\<bar> \<le> 1 / 2"
    unfolding k_def by (rule floor_half_error)
  have "is_double (of_int k) \<and> is_double (of_int k - t)"
  proof (cases "0 \<le> e")
    case True
    have "t = of_int (m * 2 ^ nat e)"
      unfolding r(1) using True by (simp add: pw_nonneg_int)
    then obtain T :: int where T: "t = of_int T" ..
    have "k = T" unfolding k_def T by (rule floor_int_plus_half)
    then have "of_int k = t" using T by simp
    then show ?thesis using assms by simp
  next
    case False
    then have e1: "e \<le> - 1" by simp
    have mabs: "\<bar>t\<bar> = of_int \<bar>m\<bar> * 2 powi e"
      unfolding r(1) by (simp add: abs_mult)
    have mle: "(of_int \<bar>m\<bar> :: rat) \<le> 2 ^ 53"
    proof -
      have "(of_int \<bar>m\<bar> :: rat) \<le> of_int (2 ^ 53)" using r(2) by (simp only: of_int_le_iff)
      then show ?thesis by simp
    qed
    have "(2::rat) powi e \<le> 2 powi (- 1)" using e1 by (rule pw_mono)
    then have "of_int \<bar>m\<bar> * 2 powi e \<le> (2::rat) ^ 53 * 2 powi (- 1)"
      using mle by (intro mult_mono) simp_all
    then have tb: "\<bar>t\<bar> \<le> 2 ^ 52" unfolding mabs by simp
    have "\<bar>of_int k :: rat\<bar> \<le> 2 ^ 52 + 1 / 2" using tb err by linarith
    then have "\<bar>of_int k :: rat\<bar> < of_int (2 ^ 52 + 1)" by simp
    then have "\<bar>k\<bar> < 2 ^ 52 + 1" by (simp only: of_int_abs [symmetric] of_int_less_iff)
    then have "\<bar>k\<bar> \<le> 2 ^ 53" by simp
    then have dk: "is_double (of_int k)" by (rule is_double_of_int)
    have dd: "is_double (of_int k - t)"
    proof (cases "- 53 \<le> e")
      case True
      define m' where "m' = k * 2 ^ nat (- e) - m"
      have pe: "(2::rat) powi e * 2 powi (- e) = 1"
        by (simp add: pw_add [symmetric])
      have pn: "(2::rat) powi (- e) = of_int (2 ^ nat (- e))"
        using e1 by (simp add: pw_nonneg_int)
      have "(of_int m' :: rat) * 2 powi e = of_int k * (2 powi (- e) * 2 powi e) - of_int m * 2 powi e"
        unfolding m'_def pn by (simp add: algebra_simps)
      also have "\<dots> = of_int k - t"
        unfolding r(1) using pe by (simp add: mult.commute)
      finally have d: "of_int k - t = of_int m' * 2 powi e" by simp
      have "\<bar>of_int m' :: rat\<bar> = \<bar>of_int k - t\<bar> * 2 powi (- e)"
        unfolding d by (simp add: abs_mult mult.assoc pe)
      also have "\<dots> \<le> 1 / 2 * 2 powi (- e)"
        using err by (intro mult_right_mono) simp_all
      also have "\<dots> \<le> 1 / 2 * 2 powi 53"
        using True by (intro mult_left_mono pw_mono) simp_all
      also have "\<dots> < of_int (2 ^ 53)" by simp
      finally have "\<bar>m'\<bar> < 2 ^ 53"
        by (simp only: of_int_abs [symmetric] of_int_less_iff)
      moreover have "\<bar>of_int k - t\<bar> < 2 ^ 1024"
      proof -
        have "(1::rat) / 2 < 2 ^ 53" by simp
        then show ?thesis using err big_bound by linarith
      qed
      ultimately show ?thesis using d r(3) by (intro is_doubleI [where m = m' and e = e])
    next
      case False
      then have e54: "e \<le> - 54" by simp
      have "(2::rat) powi e \<le> 2 powi (- 54)" using e54 by (rule pw_mono)
      moreover have "(of_int \<bar>m\<bar> :: rat) < 2 ^ 53"
      proof -
        have "(of_int \<bar>m\<bar> :: rat) < of_int (2 ^ 53)" using r(2) by (simp only: of_int_less_iff)
        then show ?thesis by simp
      qed
      ultimately have "of_int \<bar>m\<bar> * 2 powi e < (2::rat) ^ 53 * 2 powi (- 54)"
        by (intro mult_less_le_imp_less) simp_all
      then have "\<bar>t\<bar> < 1 / 2" unfolding mabs by simp
      then have "0 < t + 1 / 2" "t + 1 / 2 < 1" by linarith+
      then have "k = 0" unfolding k_def by (intro floor_unique) simp_all
      then show ?thesis using is_double_neg [OF assms] by simp
    qed
    from dk dd show ?thesis ..
  qed
  then show "is_double (of_int \<lfloor>t + 1 / 2\<rfloor>)" and "is_double (of_int \<lfloor>t + 1 / 2\<rfloor> - t)"
    unfolding k_def by simp_all
qed

subsection \<open>Bounds on the rounded value\<close>

lemma double_nonzero_lower:
  assumes "is_double g" "g \<noteq> 0"
  shows "2 powi (- 1074) \<le> \<bar>g\<bar>"
proof -
  obtain m e where r: "g = of_int m * 2 powi e" "\<bar>m\<bar> < 2 ^ 53" "- 1074 \<le> e"
    using is_double_repr [OF assms(1)] by blast
  have "m \<noteq> 0" using r(1) assms(2) by auto
  then have "1 \<le> \<bar>m\<bar>" by simp
  then have "(1::rat) \<le> of_int \<bar>m\<bar>" by (simp only: of_int_1_le_iff)
  then have "1 * 2 powi e \<le> of_int \<bar>m\<bar> * (2::rat) powi e"
    by (intro mult_right_mono) simp_all
  then have "2 powi e \<le> of_int \<bar>m\<bar> * (2::rat) powi e"
    by (simp only: mult_1)
  moreover have "\<bar>g\<bar> = of_int \<bar>m\<bar> * 2 powi e"
    unfolding r(1) by (simp add: abs_mult)
  moreover have "(2::rat) powi (- 1074) \<le> 2 powi e" using r(3) by (rule pw_mono)
  ultimately show ?thesis by linarith
qed

text \<open>If the scaled magnitude is below an integer, so is the rounded one.\<close>

lemma rnd_scaled_bound:
  assumes nz: "x \<noteq> 0"
    and b: "\<bar>x\<bar> / 2 powi quantum_exp x \<le> of_int N"
    and g: "of_int N * 2 powi quantum_exp x \<le> G" and fin: "G < 2 ^ 1024"
  shows "\<exists>y. rnd x = Fin y \<and> \<bar>y\<bar> \<le> G"
proof -
  define p where "p = quantum_exp x"
  define n where "n = rhe (x / 2 powi p)"
  have ax: "\<bar>x / 2 powi p\<bar> = \<bar>x\<bar> / 2 powi p" by (simp add: abs_divide)
  have "x / 2 powi p \<le> of_int N" using b ax unfolding p_def by linarith
  then have n1: "n \<le> N" unfolding n_def by (rule rhe_le)
  have "of_int (- N) \<le> x / 2 powi p" using b ax unfolding p_def by (simp only: of_int_minus)
  then have n2: "- N \<le> n" unfolding n_def by (rule rhe_ge)
  have "\<bar>n\<bar> \<le> N" using n1 n2 by simp
  then have "(of_int \<bar>n\<bar> :: rat) \<le> of_int N" by (simp only: of_int_le_iff)
  then have "of_int \<bar>n\<bar> * 2 powi p \<le> of_int N * (2::rat) powi p"
    by (intro mult_right_mono) simp_all
  moreover have "\<bar>of_int n * (2::rat) powi p\<bar> = of_int \<bar>n\<bar> * 2 powi p"
    by (simp add: abs_mult)
  ultimately have y: "\<bar>of_int n * (2::rat) powi p\<bar> \<le> G"
    using g unfolding p_def by linarith
  then have "\<not> 2 ^ 1024 \<le> \<bar>of_int n * (2::rat) powi p\<bar>" using fin by linarith
  then have "rnd x = Fin (of_int n * 2 powi p)"
    unfolding rnd_nonzero [OF nz] n_def p_def by simp
  with y show ?thesis by blast
qed

lemma rnd_le_double:
  assumes g: "is_double g" and le: "\<bar>x\<bar> \<le> \<bar>g\<bar>"
  shows "\<exists>y. rnd x = Fin y \<and> \<bar>y\<bar> \<le> \<bar>g\<bar>"
proof (cases "x = 0")
  case True
  then show ?thesis by simp
next
  case False
  then have gnz: "g \<noteq> 0" using le by auto
  obtain m e where r: "g = of_int m * 2 powi e" "\<bar>m\<bar> < 2 ^ 53" "- 1074 \<le> e" "\<bar>g\<bar> < 2 ^ 1024"
    using is_double_repr [OF g] by blast
  define p where "p = quantum_exp x"
  have xpos: "0 < \<bar>x\<bar>" using False by simp
  have Lle: "ilog2 \<bar>x\<bar> \<le> ilog2 \<bar>g\<bar>" using xpos le by (rule ilog2_mono)
  show ?thesis
  proof (cases "ilog2 \<bar>x\<bar> = ilog2 \<bar>g\<bar>")
    case True
    then have pq: "p = quantum_exp g" by (simp add: p_def quantum_exp_def)
    have pe: "p \<le> e" unfolding pq using r(1,2,3) gnz by (rule repr_quantum_le)
    define N where "N = \<bar>m\<bar> * 2 ^ nat (e - p)"
    have "(2::rat) powi e = 2 powi (e - p) * 2 powi p" by (simp add: pw_add [symmetric])
    also have "(2::rat) powi (e - p) = of_int (2 ^ nat (e - p))" using pe by (simp add: pw_nonneg_int)
    finally have "\<bar>g\<bar> = of_int N * 2 powi p"
      unfolding r(1) N_def by (simp add: abs_mult)
    then have a: "of_int N * 2 powi quantum_exp x \<le> \<bar>g\<bar>" and gN: "\<bar>g\<bar> / 2 powi p = of_int N"
      by (simp_all add: p_def)
    have "\<bar>x\<bar> / 2 powi p \<le> \<bar>g\<bar> / 2 powi p" using le by (simp add: divide_right_mono)
    then have b: "\<bar>x\<bar> / 2 powi quantum_exp x \<le> of_int N" using gN by (simp add: p_def)
    from False b a r(4) show ?thesis by (rule rnd_scaled_bound)
  next
    case False
    then have Llt: "ilog2 \<bar>x\<bar> + 1 \<le> ilog2 \<bar>g\<bar>" using Lle by simp
    define LG where "LG = ilog2 \<bar>g\<bar>"
    have "(2::rat) powi (- 1074) \<le> \<bar>g\<bar>" using g gnz by (rule double_nonzero_lower)
    moreover have "\<bar>g\<bar> < 2 powi (LG + 1)" unfolding LG_def using gnz by (rule abs_lt_pow(1))
    ultimately have "(2::rat) powi (- 1074) < 2 powi (LG + 1)" by linarith
    then have "- 1074 < LG + 1" by (rule pw_less_cancel)
    then have pLG: "p \<le> LG" using Llt by (simp add: p_def quantum_exp_def LG_def)
    define N :: int where "N = 2 ^ nat (LG - p)"
    have "(2::rat) powi LG = 2 powi (LG - p) * 2 powi p" by (simp add: pw_add [symmetric])
    also have "(2::rat) powi (LG - p) = of_int N" unfolding N_def using pLG by (simp add: pw_nonneg_int)
    finally have NL: "of_int N * 2 powi p = (2::rat) powi LG" by simp
    have gl: "(2::rat) powi LG \<le> \<bar>g\<bar>" unfolding LG_def using gnz by (rule abs_lt_pow(2))
    have a: "of_int N * 2 powi quantum_exp x \<le> \<bar>g\<bar>" using NL gl by (simp add: p_def)
    have "\<bar>x\<bar> < 2 powi (ilog2 \<bar>x\<bar> + 1)" using \<open>x \<noteq> 0\<close> by (rule abs_lt_pow(1))
    also have "\<dots> \<le> 2 powi LG" unfolding LG_def using Llt by (rule pw_mono)
    finally have "\<bar>x\<bar> / 2 powi p \<le> 2 powi LG / 2 powi p" by (simp add: divide_right_mono)
    also have "\<dots> = of_int N" using NL by (simp add: field_simps)
    finally have b: "\<bar>x\<bar> / 2 powi quantum_exp x \<le> of_int N" by (simp add: p_def)
    from \<open>x \<noteq> 0\<close> b a r(4) show ?thesis by (rule rnd_scaled_bound)
  qed
qed

lemma rnd_nonneg:
  assumes "0 \<le> x"
  shows "rnd x = PInf \<or> (\<exists>y. rnd x = Fin y \<and> 0 \<le> y)"
proof (cases "x = 0")
  case True
  then show ?thesis by simp
next
  case False
  have "of_int 0 \<le> x / 2 powi quantum_exp x" using assms by simp
  then have "0 \<le> rhe (x / 2 powi quantum_exp x)" by (rule rhe_ge)
  then have "0 \<le> (of_int (rhe (x / 2 powi quantum_exp x)) :: rat) * 2 powi quantum_exp x"
    by simp
  then show ?thesis
    using assms False by (simp add: rnd_nonzero [OF False])
qed

lemma rnd_ge_pow:
  assumes x: "0 < x" and e: "2 powi e \<le> x" and lo: "- 1074 \<le> e"
  shows "rnd x = PInf \<or> (\<exists>y. rnd x = Fin y \<and> 2 powi e \<le> y)"
proof -
  have nz: "x \<noteq> 0" using x by simp
  define L where "L = ilog2 \<bar>x\<bar>"
  define p where "p = quantum_exp x"
  have ax: "\<bar>x\<bar> = x" using x by simp
  have "x < 2 powi (L + 1)" using abs_lt_pow(1) [OF nz] by (simp add: L_def ax)
  then have "(2::rat) powi e < 2 powi (L + 1)" using e by linarith
  then have eL: "e \<le> L" using pw_less_cancel [of e "L + 1"] by simp
  then have pL: "p \<le> L" using lo by (simp add: p_def quantum_exp_def L_def)
  define N :: int where "N = 2 ^ nat (L - p)"
  have "(2::rat) powi L = 2 powi (L - p) * 2 powi p" by (simp add: pw_add [symmetric])
  also have "(2::rat) powi (L - p) = of_int N" unfolding N_def using pL by (simp add: pw_nonneg_int)
  finally have NL: "of_int N * 2 powi p = (2::rat) powi L" by simp
  have Lx: "(2::rat) powi L \<le> x" using abs_lt_pow(2) [OF nz] by (simp add: L_def ax)
  then have "2 powi L / 2 powi p \<le> x / 2 powi p" by (simp add: divide_right_mono)
  moreover have "(2::rat) powi L / 2 powi p = of_int N" using NL by (simp add: field_simps)
  ultimately have "of_int N \<le> x / 2 powi p" by simp
  then have "N \<le> rhe (x / 2 powi p)" by (rule rhe_ge)
  then have "(of_int N :: rat) \<le> of_int (rhe (x / 2 powi p))" by (simp only: of_int_le_iff)
  then have "of_int N * 2 powi p \<le> (of_int (rhe (x / 2 powi p)) :: rat) * 2 powi p"
    by (intro mult_right_mono) simp_all
  then have "(2::rat) powi L \<le> of_int (rhe (x / 2 powi p)) * 2 powi p" using NL by simp
  moreover have "(2::rat) powi e \<le> 2 powi L" using eL by (rule pw_mono)
  ultimately have "(2::rat) powi e \<le> of_int (rhe (x / 2 powi p)) * 2 powi p" by linarith
  then show ?thesis
    using x by (simp add: rnd_nonzero [OF nz] p_def)
qed

lemma rnd_ge_one:
  assumes "1 \<le> x"
  shows "rnd x = PInf \<or> (\<exists>y. rnd x = Fin y \<and> 1 \<le> y)"
  using rnd_ge_pow [of x 0] assms by simp

lemma rnd_finite_bound: "rnd x = Fin y \<Longrightarrow> \<bar>y\<bar> < 2 ^ 1024"
  using rnd_repr [of x y] by blast

lemma rnd_overflow:
  assumes "2 ^ 1024 \<le> x"
  shows "rnd x = PInf"
proof -
  have "0 < x" using assms by (simp add: less_le_trans [of 0 "2 ^ 1024"])
  moreover have "(2::rat) powi 1024 \<le> x" using assms by simp
  ultimately have "rnd x = PInf \<or> (\<exists>y. rnd x = Fin y \<and> 2 powi 1024 \<le> y)"
    by (rule rnd_ge_pow) simp
  then show ?thesis
  proof
    assume "\<exists>y. rnd x = Fin y \<and> 2 powi 1024 \<le> y"
    then obtain y where y: "rnd x = Fin y" "2 powi 1024 \<le> y" by blast
    have "\<bar>y\<bar> < 2 ^ 1024" using y(1) by (rule rnd_finite_bound)
    then show ?thesis using y(2) by simp
  qed
qed

lemma rnd_error:
  assumes "rnd x = Fin y"
  shows "\<bar>y - x\<bar> \<le> max (\<bar>x\<bar> / 2 ^ 53) (1 / 2 ^ 1075)"
proof (cases "x = 0")
  case True
  then show ?thesis using assms by simp
next
  case False
  define p where "p = quantum_exp x"
  define n where "n = rhe (x / 2 powi p)"
  have y: "y = of_int n * 2 powi p"
    using assms by (auto simp: rnd_nonzero [OF False] p_def n_def split: if_splits)
  have "\<bar>of_int n - x / 2 powi p\<bar> \<le> 1 / 2"
    unfolding n_def by (rule rhe_error)
  then have "\<bar>of_int n - x / 2 powi p\<bar> * 2 powi p \<le> 1 / 2 * 2 powi p"
    by (intro mult_right_mono) simp_all
  moreover have "\<bar>of_int n - x / 2 powi p\<bar> * 2 powi p = \<bar>y - x\<bar>"
  proof -
    have "y - x = (of_int n - x / 2 powi p) * 2 powi p"
      unfolding y by (simp add: algebra_simps)
    then show ?thesis by (simp add: abs_mult)
  qed
  ultimately have err: "\<bar>y - x\<bar> \<le> 2 powi p / 2" by simp
  have "2 powi p / 2 \<le> max (\<bar>x\<bar> / 2 ^ 53) (1 / 2 ^ 1075)"
  proof (cases "ilog2 \<bar>x\<bar> - 52 \<le> - 1074")
    case True
    then have "p = - 1074" by (simp add: p_def quantum_exp_def)
    then have "(2::rat) powi p / 2 = 1 / 2 ^ 1075"
      by (simp add: power_int_minus_divide)
    then show ?thesis by simp
  next
    case False
    then have pp: "p = ilog2 \<bar>x\<bar> - 52" by (simp add: p_def quantum_exp_def)
    have "(2::rat) powi p / 2 = 2 powi ilog2 \<bar>x\<bar> / 2 ^ 53"
      unfolding pp by (simp add: pw_diff)
    also have "\<dots> \<le> \<bar>x\<bar> / 2 ^ 53"
      using abs_lt_pow(2) [OF \<open>x \<noteq> 0\<close>] by (simp add: divide_right_mono)
    finally show ?thesis by simp
  qed
  with err show ?thesis by linarith
qed

subsection \<open>The operations return binary64 values; the subtotal and the rounding\<close>

lemma wf_rnd [simp]: "wf_num (rnd x)"
  by (cases "rnd x") (simp_all add: rnd_is_double)

lemma wf_signed_inf [simp]: "wf_num (signed_inf a PInf)" "wf_num (signed_inf a NInf)"
  by (simp_all add: signed_inf_def)

lemma wf_fadd [simp]: "wf_num (fadd a b)"
  by (cases a; cases b) simp_all

lemma wf_fsub [simp]: "wf_num (fsub a b)"
  by (simp add: fsub_def)

lemma wf_fmul [simp]: "wf_num (fmul a b)"
  by (cases a; cases b) simp_all

lemma wf_fdiv [simp]: "wf_num (fdiv a b)"
  by (cases a; cases b) simp_all

lemma wf_math_round: "wf_num t \<Longrightarrow> wf_num (math_round t)"
  by (cases t) (simp_all add: round_exact(1))

lemma wf_foldl_fadd:
  "wf_num acc \<Longrightarrow> wf_num (foldl (\<lambda>acc item. fadd acc (g item)) acc items)"
  by (induction items arbitrary: acc) simp_all

lemma wf_grossTotal [simp]: "wf_num (grossTotal quote)"
  unfolding grossTotal_def by (rule wf_foldl_fadd) simp

lemma rnd_one [simp]: "rnd 1 = Fin 1"
  using is_double_of_int [of 1] by (simp add: is_double_def)

lemma fdiv_one: "wf_num a \<Longrightarrow> fdiv a (Fin 1) = a"
  by (cases a) (simp_all add: is_double_def)

lemma fgt_zero_cases: "fgt r (Fin 0) \<Longrightarrow> (\<exists>v. r = Fin v \<and> 0 < v) \<or> r = PInf"
  by (cases r) simp_all

lemma taxDivisor_no_tax: "\<not> fgt (taxRate quote) (Fin 0) \<Longrightarrow> taxDivisor quote = Fin 1"
  by (simp add: taxDivisor_def)

lemma taxDivisor_cases:
  assumes "fgt (taxRate quote) (Fin 0)"
  shows "taxDivisor quote = PInf \<or> (\<exists>d. taxDivisor quote = Fin d \<and> 1 \<le> d)"
proof -
  from fgt_zero_cases [OF assms] show ?thesis
  proof
    assume "\<exists>v. taxRate quote = Fin v \<and> 0 < v"
    then obtain v where v: "taxRate quote = Fin v" "0 < v" by blast
    have "0 \<le> v / 100" using v(2) by simp
    from rnd_nonneg [OF this] show ?thesis
    proof
      assume "rnd (v / 100) = PInf"
      then show ?thesis using assms v by (simp add: taxDivisor_def)
    next
      assume "\<exists>y. rnd (v / 100) = Fin y \<and> 0 \<le> y"
      then obtain y where y: "rnd (v / 100) = Fin y" "0 \<le> y" by blast
      have "1 \<le> 1 + y" using y(2) by simp
      from rnd_ge_one [OF this] show ?thesis
        using assms v y by (simp add: taxDivisor_def)
    qed
  next
    assume "taxRate quote = PInf"
    then show ?thesis using assms by (simp add: taxDivisor_def)
  qed
qed

lemma subtotal_formula:
  "subtotal quote =
     (if fgt (taxRate quote) (Fin 0)
      then fdiv (grossTotal quote) (fadd (Fin 1) (fdiv (taxRate quote) (Fin 100)))
      else grossTotal quote)"
proof (cases "fgt (taxRate quote) (Fin 0)")
  case False
  then show ?thesis by (simp add: subtotal_def taxDivisor_no_tax)
next
  case True
  then have td: "taxDivisor quote = fadd (Fin 1) (fdiv (taxRate quote) (Fin 100))"
    by (simp add: taxDivisor_def)
  have "subtotal quote = fdiv (grossTotal quote) (taxDivisor quote)"
    using taxDivisor_cases [OF True]
  proof
    assume "taxDivisor quote = PInf"
    then show ?thesis by (simp add: subtotal_def)
  next
    assume "\<exists>d. taxDivisor quote = Fin d \<and> 1 \<le> d"
    then obtain d where d: "taxDivisor quote = Fin d" "1 \<le> d" by blast
    show ?thesis
    proof (cases "1 < d")
      case True
      then show ?thesis using d by (simp add: subtotal_def)
    next
      case False
      with d have "taxDivisor quote = Fin 1" by simp
      then show ?thesis by (simp add: subtotal_def fdiv_one)
    qed
  qed
  then show ?thesis using True td by simp
qed

lemma round_total:
  assumes "totalAfterDiscount quote = Fin t"
  shows "grandTotal quote = Fin (of_int \<lfloor>t + 1 / 2\<rfloor>)"
    and "roundOff quote = Fin (of_int \<lfloor>t + 1 / 2\<rfloor> - t)"
proof -
  have "wf_num (totalAfterDiscount quote)" by (simp add: totalAfterDiscount_def)
  then have t: "is_double t" using assms by simp
  show g: "grandTotal quote = Fin (of_int \<lfloor>t + 1 / 2\<rfloor>)"
    by (simp add: grandTotal_def assms)
  have "rnd (of_int \<lfloor>t + 1 / 2\<rfloor> - t) = Fin (of_int \<lfloor>t + 1 / 2\<rfloor> - t)"
    using round_exact(2) [OF t] by (simp add: is_double_def)
  then show "roundOff quote = Fin (of_int \<lfloor>t + 1 / 2\<rfloor> - t)"
    by (simp add: roundOff_def g assms fsub_def)
qed


subsection \<open>Evaluating a rounding at a given number\<close>

text \<open>
  The binary exponent and the rounded significand are supplied, and the side conditions
  are checked by computation on the numerals.
\<close>

lemma rhe_near:
  assumes "\<bar>z - of_int n\<bar> < 1 / 2"
  shows "rhe z = n"
proof (cases "of_int n \<le> z")
  case True
  then have "\<lfloor>z\<rfloor> = n" using assms by (intro floor_unique) linarith+
  then show ?thesis using assms True by (simp add: rhe_def Let_def)
next
  case False
  then have "\<lfloor>z\<rfloor> = n - 1" using assms by (intro floor_unique) (simp, linarith)+
  then show ?thesis using assms False by (simp add: rhe_def Let_def)
qed

lemma rhe_tie:
  assumes "z = of_int f + 1 / 2"
  shows "rhe z = (if even f then f else f + 1)"
proof -
  have "\<lfloor>z\<rfloor> = f" unfolding assms by (rule floor_int_plus_half)
  then show ?thesis using assms by (simp add: rhe_def Let_def)
qed

lemma quantum_exp_eq:
  assumes "x \<noteq> 0" "2 powi L \<le> \<bar>x\<bar>" "\<bar>x\<bar> < 2 powi (L + 1)"
  shows "quantum_exp x = max (L - 52) (- 1074)"
proof -
  have "ilog2 \<bar>x\<bar> = L" using assms by (intro ilog2_unique) simp_all
  then show ?thesis by (simp add: quantum_exp_def)
qed

lemma rnd_near:
  assumes "x \<noteq> 0" "2 powi L \<le> \<bar>x\<bar>" "\<bar>x\<bar> < 2 powi (L + 1)"
    and "p = max (L - 52) (- 1074)"
    and "\<bar>x / 2 powi p - of_int n\<bar> < 1 / 2"
    and "\<bar>of_int n * 2 powi p\<bar> < (2::rat) ^ 1024"
  shows "rnd x = Fin (of_int n * 2 powi p)"
proof -
  have q: "quantum_exp x = p" using quantum_exp_eq [OF assms(1-3)] assms(4) by simp
  have "rhe (x / 2 powi p) = n" using assms(5) by (rule rhe_near)
  then show ?thesis using assms(6) by (simp add: rnd_nonzero [OF assms(1)] q)
qed

lemma rnd_tie:
  assumes "x \<noteq> 0" "2 powi L \<le> \<bar>x\<bar>" "\<bar>x\<bar> < 2 powi (L + 1)"
    and "p = max (L - 52) (- 1074)"
    and "x / 2 powi p = of_int f + 1 / 2"
    and "n = (if even f then f else f + 1)"
    and "\<bar>of_int n * 2 powi p\<bar> < (2::rat) ^ 1024"
  shows "rnd x = Fin (of_int n * 2 powi p)"
proof -
  have q: "quantum_exp x = p" using quantum_exp_eq [OF assms(1-3)] assms(4) by simp
  have "rhe (x / 2 powi p) = n" using rhe_tie [OF assms(5)] assms(6) by simp
  then show ?thesis using assms(7) by (simp add: rnd_nonzero [OF assms(1)] q)
qed

lemma rnd_int: "\<bar>k\<bar> \<le> 2 ^ 53 \<Longrightarrow> rnd (of_int k) = Fin (of_int k)"
  using is_double_of_int [of k] by (simp add: is_double_def)

lemma lit_tenth: "lit (1 / 10) = Fin (3602879701896397 / 36028797018963968)"
  unfolding lit_def using rnd_near [of "1 / 10" "- 4" "- 56" 7205759403792794] by simp

lemma lit_fifth: "lit (1 / 5) = Fin (3602879701896397 / 18014398509481984)"
  unfolding lit_def using rnd_near [of "1 / 5" "- 3" "- 55" 7205759403792794] by simp

lemma lit_three_tenths: "lit (3 / 10) = Fin (5404319552844595 / 18014398509481984)"
  unfolding lit_def using rnd_near [of "3 / 10" "- 2" "- 54" 5404319552844595] by simp

lemma lit_one: "lit 1 = Fin 1"
  by (simp add: lit_def)

lemma sum_ab:
  "rnd (3602879701896397 / 36028797018963968 + 3602879701896397 / 18014398509481984)
   = Fin (1351079888211149 / 4503599627370496)"
  using rnd_tie [of "3602879701896397 / 36028797018963968 + 3602879701896397 / 18014398509481984"
      "- 2" "- 54" 5404319552844595 5404319552844596]
  by simp

lemma sum_abc:
  "rnd (1351079888211149 / 4503599627370496 + 5404319552844595 / 18014398509481984)
   = Fin (1351079888211149 / 2251799813685248)"
  using rnd_tie [of "1351079888211149 / 4503599627370496 + 5404319552844595 / 18014398509481984"
      "- 1" "- 53" 5404319552844595 5404319552844596]
  by simp

lemma sum_cb:
  "rnd (5404319552844595 / 18014398509481984 + 3602879701896397 / 18014398509481984) = Fin (1 / 2)"
  using rnd_near [of "5404319552844595 / 18014398509481984 + 3602879701896397 / 18014398509481984"
      "- 1" "- 53" 4503599627370496]
  by simp

lemma sum_cba:
  "rnd (1 / 2 + 3602879701896397 / 36028797018963968) = Fin (5404319552844595 / 9007199254740992)"
  using rnd_near [of "1 / 2 + 3602879701896397 / 36028797018963968" "- 1" "- 53" 5404319552844595]
  by simp

lemma rnd_half_int: "\<bar>m\<bar> < 2 ^ 53 \<Longrightarrow> rnd (of_int m / 2) = Fin (of_int m / 2)"
proof -
  assume m: "\<bar>m\<bar> < 2 ^ 53"
  have a: "(of_int m / 2 :: rat) = of_int m * 2 powi (- 1)" by (simp add: power_int_minus_divide)
  have c: "- 1074 \<le> (- 1 :: int)" by simp
  have "\<bar>of_int m :: rat\<bar> < of_int (2 ^ 53)" using m by (simp only: of_int_abs [symmetric] of_int_less_iff)
  then have "\<bar>of_int m / 2 :: rat\<bar> < 2 ^ 53" by simp
  then have d: "\<bar>of_int m / 2 :: rat\<bar> < 2 ^ 1024" using big_bound by linarith
  from a m c d have "is_double (of_int m / 2)" by (rule is_doubleI)
  then show ?thesis by (simp add: is_double_def)
qed

text \<open>The literal \<^verbatim>\<open>1e308\<close> and the sum of two of them.\<close>

lemma lit_1e308: "lit (10 ^ 308) = Fin (5010420900022432 * 2 ^ 971)"
  unfolding lit_def using rnd_near [of "10 ^ 308" 1023 971 5010420900022432] by simp

lemma rnd_1e308: "rnd (5010420900022432 * 2 ^ 971) = Fin (5010420900022432 * 2 ^ 971)"
  using rnd_is_double [OF lit_1e308 [unfolded lit_def]] by (simp add: is_double_def)

lemma rnd_2e308: "rnd (5010420900022432 * 2 ^ 971 + 5010420900022432 * 2 ^ 971) = PInf"
  by (rule rnd_overflow) simp

lemma overflow_gross: "grossTotal overflow_quote = PInf"
  using lit_1e308 rnd_1e308 rnd_2e308
  by (simp add: grossTotal_def overflow_quote_def example_quote_def example_item_def lit_one)

text \<open>The tax rate 18 on a gross total of 10000: \<^verbatim>\<open>18 / 100\<close>, \<^verbatim>\<open>1 + 0.18\<close>,
  \<^verbatim>\<open>10000 / 1.18\<close> and \<^verbatim>\<open>10000 - 8474.57...\<close>.\<close>

lemma rnd_tax_18: "rnd (9 / 50) = Fin (3242591731706757 / 18014398509481984)"
  using rnd_near [of "9 / 50" "- 3" "- 55" 6485183463413514] by simp

lemma rnd_divisor_18:
  "rnd (1 + 3242591731706757 / 18014398509481984) = Fin (5314247560297185 / 4503599627370496)"
  using rnd_near [of "1 + 3242591731706757 / 18014398509481984" 0 "- 52" 5314247560297185] by simp

lemma rnd_subtotal_18:
  "rnd (10000 / (5314247560297185 / 4503599627370496)) = Fin (2329473787661017 / 274877906944)"
  using rnd_near [of "10000 / (5314247560297185 / 4503599627370496)" 13 "- 39" 4658947575322034]
  by simp

lemma rnd_tax_amount_18:
  "rnd (10000 - 2329473787661017 / 274877906944) = Fin (419305281778983 / 274877906944)"
  using rnd_near [of "10000 - 2329473787661017 / 274877906944" 10 "- 42" 6708884508463728]
  by simp


section \<open>The totals\<close>

text \<open>
  C1. With the operations of binary64 arithmetic: the gross total is the sum of the
  products quantity times unit amount, added from 0 in the order of the list; the
  subtotal is the gross total divided by 1 + R/100 when the tax rate R is greater than 0,
  and the gross total otherwise; the total tax is the gross total minus the subtotal; the
  grand total is \<^verbatim>\<open>Math.round\<close> of the gross total minus the discount (the discount is taken
  from the gross total, not from the subtotal, and is not clamped); the round-off is the
  grand total minus that difference. Whenever the difference is finite, the grand total
  is the integer nearest to it (a tie going up) and the round-off is the exact difference
  between the two, at most 1/2 in magnitude.
\<close>

theorem totals_formulas:
  "grossTotal quote =
     foldl (\<lambda>acc item. fadd acc (fmul (quantity item) (unitAmount item))) (Fin 0) (lineItems quote) \<and>
   subtotal quote =
     (if fgt (taxRate quote) (Fin 0)
      then fdiv (grossTotal quote) (fadd (Fin 1) (fdiv (taxRate quote) (Fin 100)))
      else grossTotal quote) \<and>
   totalTax quote = fsub (grossTotal quote) (subtotal quote) \<and>
   grandTotal quote = math_round (fsub (grossTotal quote) (discount quote)) \<and>
   roundOff quote = fsub (grandTotal quote) (fsub (grossTotal quote) (discount quote)) \<and>
   (\<forall>t. fsub (grossTotal quote) (discount quote) = Fin t \<longrightarrow>
      grandTotal quote = Fin (of_int \<lfloor>t + 1 / 2\<rfloor>) \<and>
      roundOff quote = Fin (of_int \<lfloor>t + 1 / 2\<rfloor> - t) \<and>
      \<bar>of_int \<lfloor>t + 1 / 2\<rfloor> - t\<bar> \<le> 1 / 2)"
  using subtotal_formula [of quote] round_total [of quote] floor_half_error
  by (simp add: grossTotal_def totalTax_def grandTotal_def roundOff_def totalAfterDiscount_def)

theorem totals_formulas_witness:
  "grossTotal (example_quote ''a'' ''QT-1'' [example_item ''i'' (Fin 4) (Fin 2500)] (Fin 500) (Fin 18))
     = Fin 10000 \<and>
   grandTotal (example_quote ''a'' ''QT-1'' [example_item ''i'' (Fin 4) (Fin 2500)] (Fin 500) (Fin 18))
     = Fin 9500 \<and>
   roundOff (example_quote ''a'' ''QT-1'' [example_item ''i'' (Fin 4) (Fin 2500)] (Fin 500) (Fin 18))
     = Fin 0 \<and>
   grandTotal (example_quote ''b'' ''QT-2'' [] (Fin 5) (Fin 0)) = Fin (- 5) \<and>
   grandTotal (example_quote ''c'' ''QT-3'' [example_item ''i'' (Fin 1) (Fin (5 / 2))] (Fin 0) (Fin 0))
     = Fin 3 \<and>
   roundOff (example_quote ''c'' ''QT-3'' [example_item ''i'' (Fin 1) (Fin (5 / 2))] (Fin 0) (Fin 0))
     = Fin (1 / 2)"
proof -
  let ?a = "example_quote ''a'' ''QT-1'' [example_item ''i'' (Fin 4) (Fin 2500)] (Fin 500) (Fin 18)"
  let ?b = "example_quote ''b'' ''QT-2'' [] (Fin 5) (Fin 0)"
  let ?c = "example_quote ''c'' ''QT-3'' [example_item ''i'' (Fin 1) (Fin (5 / 2))] (Fin 0) (Fin 0)"
  have ga: "grossTotal ?a = Fin 10000"
    using rnd_int [of 10000]
    by (simp add: grossTotal_def example_quote_def example_item_def)
  have da: "discount ?a = Fin 500" by (simp add: example_quote_def)
  have ta: "fsub (grossTotal ?a) (discount ?a) = Fin 9500"
    using rnd_int [of 9500] by (simp add: ga da fsub_def)
  have fa: "\<lfloor>(9500::rat) + 1 / 2\<rfloor> = 9500"
    using floor_int_plus_half [of 9500] by simp
  note ra = totals_formulas [of ?a, THEN conjunct2, THEN conjunct2, THEN conjunct2,
      THEN conjunct2, THEN conjunct2, rule_format, OF ta]
  have a: "grandTotal ?a = Fin 9500 \<and> roundOff ?a = Fin 0"
    using ra unfolding fa by simp
  have gb: "grossTotal ?b = Fin 0"
    by (simp add: grossTotal_def example_quote_def)
  have db: "discount ?b = Fin 5" by (simp add: example_quote_def)
  have tb: "fsub (grossTotal ?b) (discount ?b) = Fin (- 5)"
    using rnd_int [of "- 5"] by (simp add: gb db fsub_def)
  have fb: "\<lfloor>(- 5::rat) + 1 / 2\<rfloor> = - 5"
    using floor_int_plus_half [of "- 5"] by simp
  note rb = totals_formulas [of ?b, THEN conjunct2, THEN conjunct2, THEN conjunct2,
      THEN conjunct2, THEN conjunct2, rule_format, OF tb]
  have b: "grandTotal ?b = Fin (- 5)"
    using rb unfolding fb by simp
  have gc: "grossTotal ?c = Fin (5 / 2)"
    using rnd_half_int [of 5]
    by (simp add: grossTotal_def example_quote_def example_item_def)
  have dc: "discount ?c = Fin 0" by (simp add: example_quote_def)
  have tc: "fsub (grossTotal ?c) (discount ?c) = Fin (5 / 2)"
    using rnd_half_int [of 5] by (simp add: gc dc fsub_def)
  have fc: "\<lfloor>(5 / 2::rat) + 1 / 2\<rfloor> = 3"
    by (intro floor_unique) simp_all
  note rc = totals_formulas [of ?c, THEN conjunct2, THEN conjunct2, THEN conjunct2,
      THEN conjunct2, THEN conjunct2, rule_format, OF tc]
  have c: "grandTotal ?c = Fin 3 \<and> roundOff ?c = Fin (1 / 2)"
    using rc unfolding fc by simp
  from ga a b c show ?thesis by simp
qed

text \<open>
  When the sum overflows the grand total is not an integer: with two line items of one
  unit at \<^verbatim>\<open>1e308\<close> each the gross total is \<^verbatim>\<open>Infinity\<close>, and so is the grand total; the
  round-off is \<^verbatim>\<open>NaN\<close>.
\<close>

theorem grandTotal_overflow:
  "grandTotal overflow_quote = PInf \<and> roundOff overflow_quote = NaN"
  using overflow_gross
  by (simp add: grandTotal_def roundOff_def totalAfterDiscount_def fsub_def overflow_quote_def
      example_quote_def)


section \<open>Backing the tax out\<close>

lemma is_double_pow_1018: "is_double (2 ^ 1018)"
proof -
  have a: "(2::rat) ^ 1018 = of_int 1 * 2 powi 1018" by simp
  have b: "\<bar>1::int\<bar> < 2 ^ 53" by simp
  have c: "- 1074 \<le> (1018::int)" by simp
  have d: "\<bar>(2::rat) ^ 1018\<bar> < 2 ^ 1024" by simp
  from a b c d show ?thesis by (rule is_doubleI)
qed

lemma is_double_pow_1019: "is_double (2 ^ 1019)"
proof -
  have a: "(2::rat) ^ 1019 = of_int 1 * 2 powi 1019" by simp
  have b: "\<bar>1::int\<bar> < 2 ^ 53" by simp
  have c: "- 1074 \<le> (1019::int)" by simp
  have d: "\<bar>(2::rat) ^ 1019\<bar> < 2 ^ 1024" by simp
  from a b c d show ?thesis by (rule is_doubleI)
qed

lemma taxDivisor_finite:
  assumes R: "taxRate quote = Fin R" "0 < R" "is_double R"
  shows "\<exists>d. taxDivisor quote = Fin d \<and> 1 \<le> d"
proof -
  have fin: "\<bar>R\<bar> < 2 ^ 1024" using is_double_repr [OF R(3)] by blast
  have "(2::rat) ^ 1024 = 64 * 2 ^ 1018" by simp
  then have "R / 100 \<le> 2 ^ 1018" using fin R(2) by simp
  then have "\<bar>R / 100\<bar> \<le> \<bar>(2::rat) ^ 1018\<bar>" using R(2) by simp
  from rnd_le_double [OF is_double_pow_1018 this]
  obtain v where v: "rnd (R / 100) = Fin v" "\<bar>v\<bar> \<le> \<bar>(2::rat) ^ 1018\<bar>" by blast
  have v0: "0 \<le> v" using rnd_nonneg [of "R / 100"] R(2) v(1) by auto
  have "(2::rat) ^ 1019 = 2 * 2 ^ 1018" by simp
  moreover have "(1::rat) \<le> 2 ^ 1018" by simp
  ultimately have "\<bar>1 + v\<bar> \<le> \<bar>(2::rat) ^ 1019\<bar>" using v(2) v0 by simp
  from rnd_le_double [OF is_double_pow_1019 this]
  obtain d where d: "rnd (1 + v) = Fin d" by blast
  have "1 \<le> d" using rnd_ge_one [of "1 + v"] v0 d by auto
  then show ?thesis using R(1,2) v(1) d by (simp add: taxDivisor_def)
qed

lemma subtotal_bound:
  assumes G: "grossTotal quote = Fin G" and d: "taxDivisor quote = Fin d" "1 \<le> d"
  shows "\<exists>s. subtotal quote = Fin s \<and> \<bar>s * d - G\<bar> \<le> max (\<bar>G\<bar> / 2 ^ 53) (d / 2 ^ 1075)"
proof (cases "1 < d")
  case False
  then have "subtotal quote = Fin G" using d G by (simp add: subtotal_def)
  moreover have "d = 1" using False d(2) by simp
  ultimately show ?thesis by simp
next
  case True
  have dG: "is_double G" using wf_grossTotal [of quote] G by simp
  have sub: "subtotal quote = rnd (G / d)" using True d G by (simp add: subtotal_def)
  have "\<bar>G / d\<bar> \<le> \<bar>G\<bar>"
  proof -
    have "\<bar>G\<bar> / d \<le> \<bar>G\<bar> / 1" using True by (intro divide_left_mono) simp_all
    then show ?thesis using True by (simp add: abs_divide)
  qed
  from rnd_le_double [OF dG this] obtain s where s: "rnd (G / d) = Fin s" by blast
  have e: "\<bar>s - G / d\<bar> \<le> max (\<bar>G / d\<bar> / 2 ^ 53) (1 / 2 ^ 1075)"
    using s by (rule rnd_error)
  have dpos: "0 < d" using True by simp
  have "\<bar>s * d - G\<bar> = \<bar>s - G / d\<bar> * d"
  proof -
    have "s * d - G = (s - G / d) * d" using dpos by (simp add: field_simps)
    then show ?thesis using dpos by (simp add: abs_mult)
  qed
  also have "\<dots> \<le> max (\<bar>G / d\<bar> / 2 ^ 53) (1 / 2 ^ 1075) * d"
    using e dpos by (intro mult_right_mono) simp_all
  also have "\<dots> = max (\<bar>G / d\<bar> / 2 ^ 53 * d) (1 / 2 ^ 1075 * d)"
    using dpos by (simp add: max_mult_distrib_right)
  also have "\<bar>G / d\<bar> / 2 ^ 53 * d = \<bar>G\<bar> / 2 ^ 53"
    using dpos by (simp add: abs_divide)
  also have "1 / 2 ^ 1075 * d = d / 2 ^ 1075" by simp
  finally show ?thesis using sub s by simp
qed

lemma no_tax_totals:
  assumes G: "grossTotal quote = Fin G" and R: "\<not> fgt (taxRate quote) (Fin 0)"
  shows "subtotal quote = Fin G" and "totalTax quote = Fin 0"
proof -
  show s: "subtotal quote = Fin G"
    using G R by (simp add: subtotal_def taxDivisor_no_tax)
  show "totalTax quote = Fin 0"
    by (simp add: totalTax_def s G fsub_def)
qed


text \<open>
  C5. For a finite gross total G: when the tax rate is not greater than 0 (zero, negative
  or NaN) the subtotal is G and the total tax is 0; when the tax rate R is a finite
  number greater than 0, the divisor d computed for 1 + R/100 is finite and at least 1,
  the subtotal s is finite, and s times d differs from G by at most the larger of
  \<open>|G| / 2^53\<close> and \<open>d / 2^1075\<close> (half a unit in the last place of the quotient).
\<close>

theorem tax_backout:
  assumes "grossTotal quote = Fin G"
  shows "(\<not> fgt (taxRate quote) (Fin 0) \<longrightarrow> subtotal quote = Fin G \<and> totalTax quote = Fin 0) \<and>
    (\<forall>R. taxRate quote = Fin R \<and> 0 < R \<and> is_double R \<longrightarrow>
      (\<exists>d s. fadd (Fin 1) (fdiv (Fin R) (Fin 100)) = Fin d \<and> 1 \<le> d \<and> subtotal quote = Fin s \<and>
         \<bar>s * d - G\<bar> \<le> max (\<bar>G\<bar> / 2 ^ 53) (d / 2 ^ 1075)))"
proof (intro conjI allI impI)
  assume "\<not> fgt (taxRate quote) (Fin 0)"
  with assms show "subtotal quote = Fin G" and "totalTax quote = Fin 0"
    by (rule no_tax_totals)+
next
  fix R
  assume R: "taxRate quote = Fin R \<and> 0 < R \<and> is_double R"
  then obtain d where d: "taxDivisor quote = Fin d" "1 \<le> d"
    using taxDivisor_finite [of quote R] by blast
  have td: "taxDivisor quote = fadd (Fin 1) (fdiv (Fin R) (Fin 100))"
    using R by (simp add: taxDivisor_def)
  from subtotal_bound [OF assms d]
  obtain s where s: "subtotal quote = Fin s" "\<bar>s * d - G\<bar> \<le> max (\<bar>G\<bar> / 2 ^ 53) (d / 2 ^ 1075)"
    by blast
  have "fadd (Fin 1) (fdiv (Fin R) (Fin 100)) = Fin d"
    using td d(1) by (simp only:)
  with d(2) s
  show "\<exists>d s. fadd (Fin 1) (fdiv (Fin R) (Fin 100)) = Fin d \<and> 1 \<le> d \<and> subtotal quote = Fin s \<and>
         \<bar>s * d - G\<bar> \<le> max (\<bar>G\<bar> / 2 ^ 53) (d / 2 ^ 1075)"
    by blast
qed


theorem tax_backout_witness:
  "grossTotal (example_quote ''a'' ''QT-1'' [example_item ''i'' (Fin 4) (Fin 2500)] (Fin 0) (Fin 18))
     = Fin 10000 \<and>
   is_double 18 \<and>
   taxDivisor (example_quote ''a'' ''QT-1'' [example_item ''i'' (Fin 4) (Fin 2500)] (Fin 0) (Fin 18))
     = Fin (5314247560297185 / 4503599627370496) \<and>
   subtotal (example_quote ''a'' ''QT-1'' [example_item ''i'' (Fin 4) (Fin 2500)] (Fin 0) (Fin 18))
     = Fin (2329473787661017 / 274877906944) \<and>
   totalTax (example_quote ''a'' ''QT-1'' [example_item ''i'' (Fin 4) (Fin 2500)] (Fin 0) (Fin 18))
     = Fin (419305281778983 / 274877906944) \<and>
   \<bar>2329473787661017 / 274877906944 * (5314247560297185 / 4503599627370496) - 10000\<bar>
     \<le> max (\<bar>10000\<bar> / 2 ^ 53) ((5314247560297185 / 4503599627370496 :: rat) / 2 ^ 1075) \<and>
   subtotal (example_quote ''a'' ''QT-1'' [example_item ''i'' (Fin 4) (Fin 2500)] (Fin 0) (Fin 0))
     = Fin 10000 \<and>
   totalTax (example_quote ''a'' ''QT-1'' [example_item ''i'' (Fin 4) (Fin 2500)] (Fin 0) (Fin 0))
     = Fin 0"
proof -
  let ?q = "example_quote ''a'' ''QT-1'' [example_item ''i'' (Fin 4) (Fin 2500)] (Fin 0) (Fin 18)"
  let ?z = "example_quote ''a'' ''QT-1'' [example_item ''i'' (Fin 4) (Fin 2500)] (Fin 0) (Fin 0)"
  have gq: "grossTotal ?q = Fin 10000" and gz: "grossTotal ?z = Fin 10000"
    using rnd_int [of 10000]
    by (simp_all add: grossTotal_def example_quote_def example_item_def)
  have rq: "taxRate ?q = Fin 18" and rz: "taxRate ?z = Fin 0"
    by (simp_all add: example_quote_def)
  have d18: "is_double 18"
    using is_double_of_int [of 18] by simp
  have fd: "fadd (Fin 1) (fdiv (Fin 18) (Fin 100)) = Fin (5314247560297185 / 4503599627370496)"
    using rnd_tax_18 rnd_divisor_18 by simp
  then have td: "taxDivisor ?q = Fin (5314247560297185 / 4503599627370496)"
    by (simp add: taxDivisor_def rq)
  have sq: "subtotal ?q = Fin (2329473787661017 / 274877906944)"
    using rnd_subtotal_18 by (simp add: subtotal_def td gq)
  have tq: "totalTax ?q = Fin (419305281778983 / 274877906944)"
    using rnd_tax_amount_18 by (simp add: totalTax_def sq gq fsub_def)
  have "taxRate ?q = Fin 18 \<and> 0 < (18::rat) \<and> is_double 18"
    using rq d18 by simp
  from tax_backout [OF gq, THEN conjunct2, rule_format, OF this]
  obtain d s where ds: "fadd (Fin 1) (fdiv (Fin 18) (Fin 100)) = Fin d" "subtotal ?q = Fin s"
    "\<bar>s * d - 10000\<bar> \<le> max (\<bar>10000\<bar> / 2 ^ 53) (d / 2 ^ 1075)"
    by blast
  have "d = 5314247560297185 / 4503599627370496" using ds(1) fd by simp
  moreover have "s = 2329473787661017 / 274877906944" using ds(2) sq by simp
  ultimately have bound:
    "\<bar>2329473787661017 / 274877906944 * (5314247560297185 / 4503599627370496) - 10000\<bar>
     \<le> max (\<bar>10000\<bar> / 2 ^ 53) ((5314247560297185 / 4503599627370496 :: rat) / 2 ^ 1075)"
    using ds(3) by (simp only:)
  have "\<not> fgt (taxRate ?z) (Fin 0)" by (simp add: rz)
  from tax_backout [OF gz, THEN conjunct1, rule_format, OF this]
  have z: "subtotal ?z = Fin 10000 \<and> totalTax ?z = Fin 0" .
  from gq d18 td sq tq bound z show ?thesis by (simp only:) 
qed


text \<open>
  For the gross total \<^verbatim>\<open>Infinity\<close> and the tax rate 0 the subtotal is \<^verbatim>\<open>Infinity\<close> and the
  total tax is \<^verbatim>\<open>NaN\<close>, not 0.
\<close>

theorem totalTax_overflow:
  "taxRate overflow_quote = Fin 0 \<and> subtotal overflow_quote = PInf \<and> totalTax overflow_quote = NaN"
proof -
  have r: "taxRate overflow_quote = Fin 0"
    by (simp add: overflow_quote_def example_quote_def)
  then have "taxDivisor overflow_quote = Fin 1" by (simp add: taxDivisor_def)
  then have s: "subtotal overflow_quote = PInf"
    using overflow_gross by (simp add: subtotal_def)
  then show ?thesis using r overflow_gross by (simp add: totalTax_def fsub_def)
qed


section \<open>The gross total and the order of the line items\<close>

lemma nat_valued_cases:
  assumes "nat_valued a"
  obtains k :: int where "a = Fin (of_int k)" "0 \<le> k"
proof -
  obtain q where q: "a = Fin q" "0 \<le> q" "of_int \<lfloor>q\<rfloor> = q"
    using assms by (cases a) auto
  have "0 \<le> \<lfloor>q\<rfloor>" using q(2) by simp
  then show ?thesis using that [of "\<lfloor>q\<rfloor>"] q by simp
qed

lemma exact_total_nonneg:
  "\<forall>item\<in>set items. nat_valued (quantity item) \<and> nat_valued (unitAmount item) \<Longrightarrow>
     0 \<le> exact_total items"
proof (induction items)
  case Nil
  then show ?case by (simp add: exact_total_def)
next
  case (Cons item items)
  obtain q where q: "quantity item = Fin (of_int q)" "0 \<le> q"
    using Cons.prems by (auto elim: nat_valued_cases)
  obtain u where u: "unitAmount item = Fin (of_int u)" "0 \<le> u"
    using Cons.prems by (auto elim: nat_valued_cases)
  have "0 \<le> exact_total items" using Cons by simp
  then show ?case using q u by (simp add: exact_total_def)
qed

lemma gross_exact_aux:
  assumes "\<forall>item\<in>set items. nat_valued (quantity item) \<and> nat_valued (unitAmount item)"
    and "0 \<le> a" and "of_int a + exact_total items \<le> 2 ^ 53"
  shows "foldl (\<lambda>acc item. fadd acc (fmul (quantity item) (unitAmount item))) (Fin (of_int a)) items
    = Fin (of_int a + exact_total items)"
  using assms
proof (induction items arbitrary: a)
  case Nil
  then show ?case by (simp add: exact_total_def)
next
  case (Cons item items)
  obtain q where q: "quantity item = Fin (of_int q)" "0 \<le> q"
    using Cons.prems(1) by (auto elim: nat_valued_cases)
  obtain u where u: "unitAmount item = Fin (of_int u)" "0 \<le> u"
    using Cons.prems(1) by (auto elim: nat_valued_cases)
  have rest: "\<forall>item\<in>set items. nat_valued (quantity item) \<and> nat_valued (unitAmount item)"
    using Cons.prems(1) by simp
  have nn: "0 \<le> exact_total items" using rest by (rule exact_total_nonneg)
  have et: "exact_total (item # items) = of_int (q * u) + exact_total items"
    using q u by (simp add: exact_total_def)
  have qu: "0 \<le> q * u" using q u by simp
  have b: "(of_int (a + q * u) :: rat) + exact_total items \<le> 2 ^ 53"
    using Cons.prems(3) unfolding et by simp
  have "(of_int (a + q * u) :: rat) \<le> of_int (2 ^ 53)" using b nn by simp
  then have s1: "a + q * u \<le> 2 ^ 53" by (simp only: of_int_le_iff)
  then have p1: "\<bar>q * u\<bar> \<le> 2 ^ 53" using qu Cons.prems(2) by simp
  have s2: "\<bar>a + q * u\<bar> \<le> 2 ^ 53" using s1 qu Cons.prems(2) by simp
  have m: "fmul (quantity item) (unitAmount item) = Fin (of_int (q * u))"
    using rnd_int [OF p1] q u by simp
  have "fadd (Fin (of_int a)) (Fin (of_int (q * u))) = Fin (of_int (a + q * u))"
    using rnd_int [OF s2] by simp
  then have "foldl (\<lambda>acc item. fadd acc (fmul (quantity item) (unitAmount item))) (Fin (of_int a)) (item # items)
    = foldl (\<lambda>acc item. fadd acc (fmul (quantity item) (unitAmount item))) (Fin (of_int (a + q * u))) items"
    using m by simp
  also have "\<dots> = Fin (of_int (a + q * u) + exact_total items)"
    using rest _ b by (rule Cons.IH) (use qu Cons.prems(2) in simp)
  finally show ?case unfolding et by simp
qed

lemma exact_total_perm:
  assumes "mset xs = mset ys"
  shows "exact_total xs = exact_total ys"
proof -
  have *: "sum_list (map f zs) = sum_mset (image_mset f (mset zs))"
    for zs :: "line_item list" and f :: "line_item \<Rightarrow> rat"
    by (metis mset_map sum_mset_sum_list)
  show ?thesis unfolding exact_total_def * assms ..
qed


text \<open>
  C7. When the quantities and unit amounts are non-negative integers and the exact sum of
  their products is at most \<open>2^53\<close>, the gross total is that exact sum, and every
  quotation whose line items are a permutation of these has the same gross total.
\<close>

theorem grossTotal_exact:
  assumes "\<forall>item\<in>set (lineItems quote). nat_valued (quantity item) \<and> nat_valued (unitAmount item)"
    and "exact_total (lineItems quote) \<le> 2 ^ 53"
  shows "grossTotal quote = Fin (exact_total (lineItems quote)) \<and>
    (\<forall>quote'. mset (lineItems quote') = mset (lineItems quote) \<longrightarrow> grossTotal quote' = grossTotal quote)"
proof -
  have g: "grossTotal q = Fin (exact_total (lineItems q))"
    if "\<forall>item\<in>set (lineItems q). nat_valued (quantity item) \<and> nat_valued (unitAmount item)"
      and "exact_total (lineItems q) \<le> 2 ^ 53" for q
    using gross_exact_aux [of "lineItems q" 0] that by (simp add: grossTotal_def)
  have "grossTotal quote' = grossTotal quote" if p: "mset (lineItems quote') = mset (lineItems quote)" for quote'
  proof -
    have "set (lineItems quote') = set (lineItems quote)" using p by (rule mset_eq_setD)
    moreover have "exact_total (lineItems quote') = exact_total (lineItems quote)"
      using p by (rule exact_total_perm)
    ultimately show ?thesis using g [of quote'] g [of quote] assms by simp
  qed
  then show ?thesis using g [of quote] assms by blast
qed

theorem grossTotal_exact_witness:
  "grossTotal (example_quote ''a'' ''QT-1'' [example_item ''i'' (Fin 4) (Fin 2500)] (Fin 0) (Fin 18))
     = Fin 10000 \<and>
   grossTotal (example_quote ''b'' ''QT-2''
      [example_item ''1'' (Fin 2) (Fin 3), example_item ''2'' (Fin 5) (Fin 7)] (Fin 0) (Fin 18))
     = Fin 41 \<and>
   grossTotal (example_quote ''b'' ''QT-2''
      [example_item ''2'' (Fin 5) (Fin 7), example_item ''1'' (Fin 2) (Fin 3)] (Fin 0) (Fin 18))
     = Fin 41"
proof -
  let ?a = "example_quote ''a'' ''QT-1'' [example_item ''i'' (Fin 4) (Fin 2500)] (Fin 0) (Fin 18)"
  let ?b = "example_quote ''b'' ''QT-2''
      [example_item ''1'' (Fin 2) (Fin 3), example_item ''2'' (Fin 5) (Fin 7)] (Fin 0) (Fin 18)"
  let ?c = "example_quote ''b'' ''QT-2''
      [example_item ''2'' (Fin 5) (Fin 7), example_item ''1'' (Fin 2) (Fin 3)] (Fin 0) (Fin 18)"
  have la: "lineItems ?a = [example_item ''i'' (Fin 4) (Fin 2500)]"
    and lb: "lineItems ?b = [example_item ''1'' (Fin 2) (Fin 3), example_item ''2'' (Fin 5) (Fin 7)]"
    and lc: "lineItems ?c = [example_item ''2'' (Fin 5) (Fin 7), example_item ''1'' (Fin 2) (Fin 3)]"
    by (simp_all add: example_quote_def)
  have ea: "exact_total (lineItems ?a) = 10000" and eb: "exact_total (lineItems ?b) = 41"
    unfolding la lb by (simp_all add: exact_total_def example_item_def)
  have na: "\<forall>item\<in>set (lineItems ?a). nat_valued (quantity item) \<and> nat_valued (unitAmount item)"
    and nb: "\<forall>item\<in>set (lineItems ?b). nat_valued (quantity item) \<and> nat_valued (unitAmount item)"
    unfolding la lb by (simp_all add: example_item_def)
  have ba: "exact_total (lineItems ?a) \<le> 2 ^ 53" and bb: "exact_total (lineItems ?b) \<le> 2 ^ 53"
    unfolding ea eb by simp_all
  have a: "grossTotal ?a = Fin 10000"
    using grossTotal_exact [OF na ba, THEN conjunct1] unfolding ea .
  have b: "grossTotal ?b = Fin 41"
    using grossTotal_exact [OF nb bb, THEN conjunct1] unfolding eb .
  have "mset (lineItems ?c) = mset (lineItems ?b)"
    unfolding lb lc by (simp add: add_mset_commute)
  from grossTotal_exact [OF nb bb, THEN conjunct2, rule_format, OF this]
  have "grossTotal ?c = grossTotal ?b" .
  with a b show ?thesis by simp
qed


text \<open>
  For amounts with a fractional part the order matters: the unit amounts 0.1, 0.2 and 0.3
  (one unit each) add up to \<open>0.6000000000000001\<close> in this order and to \<open>0.6\<close> in the
  reverse order.
\<close>

theorem grossTotal_order_counterexample:
  "grossTotal (example_quote ''a'' ''QT-1''
      [example_item ''1'' (lit 1) (lit (1 / 10)), example_item ''2'' (lit 1) (lit (1 / 5)),
       example_item ''3'' (lit 1) (lit (3 / 10))] (Fin 0) (Fin 18))
     = Fin (1351079888211149 / 2251799813685248) \<and>
   grossTotal (example_quote ''a'' ''QT-1''
      [example_item ''3'' (lit 1) (lit (3 / 10)), example_item ''2'' (lit 1) (lit (1 / 5)),
       example_item ''1'' (lit 1) (lit (1 / 10))] (Fin 0) (Fin 18))
     = Fin (5404319552844595 / 9007199254740992) \<and>
   grossTotal (example_quote ''a'' ''QT-1''
      [example_item ''1'' (lit 1) (lit (1 / 10)), example_item ''2'' (lit 1) (lit (1 / 5)),
       example_item ''3'' (lit 1) (lit (3 / 10))] (Fin 0) (Fin 18))
     \<noteq> grossTotal (example_quote ''a'' ''QT-1''
      [example_item ''3'' (lit 1) (lit (3 / 10)), example_item ''2'' (lit 1) (lit (1 / 5)),
       example_item ''1'' (lit 1) (lit (1 / 10))] (Fin 0) (Fin 18))"
proof -
  have a: "rnd (3602879701896397 / 36028797018963968) = Fin (3602879701896397 / 36028797018963968)"
    using rnd_is_double [OF lit_tenth [unfolded lit_def]] by (simp add: is_double_def)
  have b: "rnd (3602879701896397 / 18014398509481984) = Fin (3602879701896397 / 18014398509481984)"
    using rnd_is_double [OF lit_fifth [unfolded lit_def]] by (simp add: is_double_def)
  have c: "rnd (5404319552844595 / 18014398509481984) = Fin (5404319552844595 / 18014398509481984)"
    using rnd_is_double [OF lit_three_tenths [unfolded lit_def]] by (simp add: is_double_def)
  show ?thesis
    using sum_ab sum_abc sum_cb sum_cba
    by (simp add: grossTotal_def example_quote_def example_item_def lit_one lit_tenth lit_fifth
        lit_three_tenths a b c)
qed

end
